theory Spec2Isabelle
  imports Main "HOL-Library.Word"
begin

section \<open>Panics and results\<close>

text \<open>
  A Go function either returns or panics. A panic is the left summand of the result,
  so every \<^verbatim>\<open>panic(...)\<close> of the source, every nil dereference and every index out of
  range is a branch of the model.
\<close>

datatype panic =
    PanicFlagUndefined string
  | PanicMessage string
  | PanicNilDereference
  | PanicIndexOutOfRange

type_synonym 'a res = "panic + 'a"

section \<open>Flag rules (rules.go)\<close>

datatype ViolationCode =
    ViolationCodeNoViolation
  | ViolationCodeEmptyAllOf
  | ViolationCodePartialAllOf
  | ViolationCodePartialAllOrNone
  | ViolationCodeExcessiveOneOf
  | ViolationCodeEmptyOneOf
  | ViolationCodeEmptyAnyOf

datatype Violation = Violation (Key: string) (Reason: ViolationCode)

text \<open>
  An Inspector answers \<^verbatim>\<open>CheckFlagValueChanged(key)\<close>. The interface method may panic
  (the route's implementation does), hence the result type.
\<close>

type_synonym Inspector = "string \<Rightarrow> bool res"

datatype Rule =
    RuleAny
  | RuleAllOf "string list"
  | RuleAllOrNone "string list"
  | RuleOneOf "string list"
  | RuleAnyOf "string list"
  | RuleDepends Rule Rule Rule
  | MultiRule "Rule list"

text \<open>
  The second loop of \<^verbatim>\<open>RuleAllOf.NthEx\<close>, \<^verbatim>\<open>RuleAllOrNone.NthEx\<close> and
  \<^verbatim>\<open>RuleOneOf.NthEx\<close>: walk the keys from a start index, skip the keys whose check is
  not \<open>want\<close>, count the others in \<open>cur\<close> and return the one with \<open>cur = i\<close>.
  The list argument is \<^verbatim>\<open>r.Keys[j:]\<close>.
\<close>

fun nth_checked :: "Inspector \<Rightarrow> bool \<Rightarrow> ViolationCode \<Rightarrow> string list \<Rightarrow> int \<Rightarrow> int
    \<Rightarrow> Violation option res" where
  "nth_checked f want code [] cur i = Inr None"
| "nth_checked f want code (key # rest) cur i =
    (case f key of
       Inl e \<Rightarrow> Inl e
     | Inr b \<Rightarrow>
         if b \<noteq> want then nth_checked f want code rest cur i
         else if cur = i then Inr (Some (Violation key code))
         else nth_checked f want code rest (cur + 1) i)"

text \<open>
  First loop of \<^verbatim>\<open>RuleAllOf.NthEx\<close>; the state is
  \<open>(someNotSet, someSet, idxFirstNotSet)\<close> and \<open>j\<close> is the range index.
\<close>

fun RuleAllOf_scan :: "Inspector \<Rightarrow> string list \<Rightarrow> nat \<Rightarrow> bool \<Rightarrow> bool \<Rightarrow> nat
    \<Rightarrow> (bool \<times> bool \<times> nat) res" where
  "RuleAllOf_scan f [] j someNotSet someSet idxFirstNotSet =
     Inr (someNotSet, someSet, idxFirstNotSet)"
| "RuleAllOf_scan f (name # rest) j someNotSet someSet idxFirstNotSet =
    (case f name of
       Inl e \<Rightarrow> Inl e
     | Inr True \<Rightarrow>
         if someNotSet then Inr (someNotSet, True, idxFirstNotSet)
         else RuleAllOf_scan f rest (j + 1) someNotSet True idxFirstNotSet
     | Inr False \<Rightarrow>
         (let idx = (if \<not> someNotSet then j else idxFirstNotSet) in
          if someSet then Inr (True, someSet, idx)
          else RuleAllOf_scan f rest (j + 1) True someSet idx))"

definition RuleAllOf_NthEx :: "string list \<Rightarrow> Inspector \<Rightarrow> int \<Rightarrow> Violation option res" where
  "RuleAllOf_NthEx keys f i =
    (if i < 0 then Inr None
     else case RuleAllOf_scan f keys 0 False False 0 of
       Inl e \<Rightarrow> Inl e
     | Inr (someNotSet, someSet, idxFirstNotSet) \<Rightarrow>
         if someNotSet then
           nth_checked f False
             (if someSet then ViolationCodePartialAllOf else ViolationCodeEmptyAllOf)
             (drop idxFirstNotSet keys) 0 i
         else Inr None)"

text \<open>First loop of \<^verbatim>\<open>RuleAllOrNone.NthEx\<close>; same state, the break sits one level deeper.\<close>

fun RuleAllOrNone_scan :: "Inspector \<Rightarrow> string list \<Rightarrow> nat \<Rightarrow> bool \<Rightarrow> bool \<Rightarrow> nat
    \<Rightarrow> (bool \<times> bool \<times> nat) res" where
  "RuleAllOrNone_scan f [] j someSet someNotSet idxFirstNotSet =
     Inr (someSet, someNotSet, idxFirstNotSet)"
| "RuleAllOrNone_scan f (name # rest) j someSet someNotSet idxFirstNotSet =
    (case f name of
       Inl e \<Rightarrow> Inl e
     | Inr True \<Rightarrow>
         if someNotSet then Inr (True, someNotSet, idxFirstNotSet)
         else RuleAllOrNone_scan f rest (j + 1) True someNotSet idxFirstNotSet
     | Inr False \<Rightarrow>
         if \<not> someNotSet then
           (if someSet then Inr (someSet, True, j)
            else RuleAllOrNone_scan f rest (j + 1) someSet True j)
         else RuleAllOrNone_scan f rest (j + 1) someSet someNotSet idxFirstNotSet)"

definition RuleAllOrNone_NthEx :: "string list \<Rightarrow> Inspector \<Rightarrow> int \<Rightarrow> Violation option res" where
  "RuleAllOrNone_NthEx keys f i =
    (if i < 0 then Inr None
     else case RuleAllOrNone_scan f keys 0 False False 0 of
       Inl e \<Rightarrow> Inl e
     | Inr (someSet, someNotSet, idxFirstNotSet) \<Rightarrow>
         if someSet \<and> someNotSet then
           nth_checked f False ViolationCodePartialAllOrNone (drop idxFirstNotSet keys) 0 i
         else Inr None)"

text \<open>First loop of \<^verbatim>\<open>RuleOneOf.NthEx\<close>; the state is \<open>(someSet, idxSecondSet)\<close>.\<close>

fun RuleOneOf_scan :: "Inspector \<Rightarrow> string list \<Rightarrow> nat \<Rightarrow> bool \<Rightarrow> nat \<Rightarrow> (bool \<times> nat) res" where
  "RuleOneOf_scan f [] j someSet idxSecondSet = Inr (someSet, idxSecondSet)"
| "RuleOneOf_scan f (name # rest) j someSet idxSecondSet =
    (case f name of
       Inl e \<Rightarrow> Inl e
     | Inr False \<Rightarrow> RuleOneOf_scan f rest (j + 1) someSet idxSecondSet
     | Inr True \<Rightarrow>
         if \<not> someSet then RuleOneOf_scan f rest (j + 1) True idxSecondSet
         else Inr (someSet, j))"

definition RuleOneOf_NthEx :: "string list \<Rightarrow> Inspector \<Rightarrow> int \<Rightarrow> Violation option res" where
  "RuleOneOf_NthEx keys f i =
    (if i < 0 then Inr None
     else case RuleOneOf_scan f keys 0 False 0 of
       Inl e \<Rightarrow> Inl e
     | Inr (someSet, idxSecondSet) \<Rightarrow>
         if \<not> someSet then
           (if i < int (length keys) \<and> i \<ge> 0
            then Inr (Some (Violation (keys ! nat i) ViolationCodeEmptyOneOf))
            else Inr None)
         else if idxSecondSet \<noteq> 0 then
           nth_checked f True ViolationCodeExcessiveOneOf (drop idxSecondSet keys) 0 i
         else Inr None)"

text \<open>The loop of \<^verbatim>\<open>RuleAnyOf.NthEx\<close>: is some key changed?\<close>

fun RuleAnyOf_scan :: "Inspector \<Rightarrow> string list \<Rightarrow> bool res" where
  "RuleAnyOf_scan f [] = Inr False"
| "RuleAnyOf_scan f (name # rest) =
    (case f name of
       Inl e \<Rightarrow> Inl e
     | Inr True \<Rightarrow> Inr True
     | Inr False \<Rightarrow> RuleAnyOf_scan f rest)"

definition RuleAnyOf_NthEx :: "string list \<Rightarrow> Inspector \<Rightarrow> int \<Rightarrow> Violation option res" where
  "RuleAnyOf_NthEx keys f i =
    (if i < 0 then Inr None
     else case RuleAnyOf_scan f keys of
       Inl e \<Rightarrow> Inl e
     | Inr someSet \<Rightarrow>
         if \<not> someSet \<and> i < int (length keys) \<and> i \<ge> 0
         then Inr (Some (Violation (keys ! nat i) ViolationCodeEmptyAnyOf))
         else Inr None)"

text \<open>
  The loop shared by \<^verbatim>\<open>MultiRule.NthEx\<close> and the two branches of
  \<^verbatim>\<open>RuleDepends.NthEx\<close>:
  \<^verbatim>\<open>for k := 0; ; k++ { v, ok := rule.NthEx(f, k); if !ok { break };
        if i == 0 { return v, true }; i-- }\<close>.
  It has no bound of its own: it ends when the inner enumeration says not-found or when
  \<open>i\<close> reaches zero. Not returning is the value \<open>None\<close>. A finished loop gives the found
  violation (\<open>Inl\<close>) or, after the break, the remaining \<open>i\<close> (\<open>Inr\<close>).
\<close>

partial_function (option) drain ::
  "(int \<Rightarrow> Violation option res option) \<Rightarrow> int \<Rightarrow> int \<Rightarrow> (Violation + int) res option" where
  "drain g i k =
    (case g k of
       None \<Rightarrow> None
     | Some (Inl e) \<Rightarrow> Some (Inl e)
     | Some (Inr None) \<Rightarrow> Some (Inr (Inr i))
     | Some (Inr (Some v)) \<Rightarrow>
         if i = 0 then Some (Inr (Inl v)) else drain g (i - 1) (k + 1))"

lemma drain_cong [fundef_cong]:
  "(\<And>k. g k = g' k) \<Longrightarrow> i = i' \<Longrightarrow> k0 = k0' \<Longrightarrow> drain g i k0 = drain g' i' k0'"
proof -
  assume "\<And>k. g k = g' k" and "i = i'" and "k0 = k0'"
  then have "g = g'" by (simp add: fun_eq_iff)
  with \<open>i = i'\<close> \<open>k0 = k0'\<close> show ?thesis by simp
qed

text \<open>The outer loop of \<^verbatim>\<open>MultiRule.NthEx\<close> over the enumerations of its rules.\<close>

fun MultiRule_loop :: "(int \<Rightarrow> Violation option res option) list \<Rightarrow> int
    \<Rightarrow> Violation option res option" where
  "MultiRule_loop [] i = Some (Inr None)"
| "MultiRule_loop (g # gs) i =
    (case drain g i 0 of
       None \<Rightarrow> None
     | Some (Inl e) \<Rightarrow> Some (Inl e)
     | Some (Inr (Inl v)) \<Rightarrow> Some (Inr (Some v))
     | Some (Inr (Inr i')) \<Rightarrow> MultiRule_loop gs i')"

text \<open>What \<^verbatim>\<open>RuleDepends.NthEx\<close> returns after the loop over the chosen branch.\<close>

definition RuleDepends_finish :: "(Violation + int) res option \<Rightarrow> Violation option res option" where
  "RuleDepends_finish r =
    (case r of
       None \<Rightarrow> None
     | Some (Inl e) \<Rightarrow> Some (Inl e)
     | Some (Inr (Inl v)) \<Rightarrow> Some (Inr (Some v))
     | Some (Inr (Inr i')) \<Rightarrow> Some (Inr None))"

text \<open>
  \<^verbatim>\<open>Rule.NthEx\<close>. The result \<open>Some (Inr (Some v))\<close> is \<^verbatim>\<open>(v, true)\<close>,
  \<open>Some (Inr None)\<close> is \<^verbatim>\<open>(Violation{}, false)\<close>, \<open>Some (Inl e)\<close> a panic and \<open>None\<close> a
  call that does not return. Nil receivers and nil interface values are outside the
  datatype.
\<close>

fun NthEx :: "Rule \<Rightarrow> Inspector \<Rightarrow> int \<Rightarrow> Violation option res option" where
  "NthEx RuleAny f i = Some (Inr None)"
| "NthEx (RuleAllOf keys) f i = Some (RuleAllOf_NthEx keys f i)"
| "NthEx (RuleAllOrNone keys) f i = Some (RuleAllOrNone_NthEx keys f i)"
| "NthEx (RuleOneOf keys) f i = Some (RuleOneOf_NthEx keys f i)"
| "NthEx (RuleAnyOf keys) f i = Some (RuleAnyOf_NthEx keys f i)"
| "NthEx (RuleDepends ifX thenY elseZ) f i =
    (if i < 0 then Some (Inr None)
     else case NthEx ifX f 0 of
       None \<Rightarrow> None
     | Some (Inl e) \<Rightarrow> Some (Inl e)
     | Some (Inr None) \<Rightarrow> RuleDepends_finish (drain (\<lambda>k. NthEx thenY f k) i 0)
     | Some (Inr (Some v)) \<Rightarrow> RuleDepends_finish (drain (\<lambda>k. NthEx elseZ f k) i 0))"
| "NthEx (MultiRule rules) f i = MultiRule_loop (map (\<lambda>rule. (\<lambda>j. NthEx rule f j)) rules) i"

subsection \<open>The structural semantics of the rules\<close>

text \<open>
  The violations of a rule as the specification words them, for an inspector that
  answers \<open>changed\<close>: a list, in the order of the stored keys and of the declaration.
\<close>

fun structural_violations :: "Rule \<Rightarrow> (string \<Rightarrow> bool) \<Rightarrow> Violation list" where
  "structural_violations RuleAny changed = []"
| "structural_violations (RuleAllOf keys) changed =
     map (\<lambda>k. Violation k (if list_ex changed keys then ViolationCodePartialAllOf
                             else ViolationCodeEmptyAllOf))
       (filter (\<lambda>k. \<not> changed k) keys)"
| "structural_violations (RuleAllOrNone keys) changed =
     (if list_ex changed keys \<and> list_ex (\<lambda>k. \<not> changed k) keys
      then map (\<lambda>k. Violation k ViolationCodePartialAllOrNone) (filter (\<lambda>k. \<not> changed k) keys)
      else [])"
| "structural_violations (RuleOneOf keys) changed =
     (if \<not> list_ex changed keys then map (\<lambda>k. Violation k ViolationCodeEmptyOneOf) keys
      else map (\<lambda>k. Violation k ViolationCodeExcessiveOneOf) (tl (filter changed keys)))"
| "structural_violations (RuleAnyOf keys) changed =
     (if \<not> list_ex changed keys then map (\<lambda>k. Violation k ViolationCodeEmptyAnyOf) keys
      else [])"
| "structural_violations (RuleDepends ifX thenY elseZ) changed =
     (if structural_violations ifX changed = [] then structural_violations thenY changed
      else structural_violations elseZ changed)"
| "structural_violations (MultiRule rules) changed =
     concat (map (\<lambda>rule. structural_violations rule changed) rules)"

text \<open>The \<open>i\<close>-th element of a list for a Go index, not-found out of range.\<close>

definition nth_or_none :: "'a list \<Rightarrow> int \<Rightarrow> 'a option" where
  "nth_or_none xs i = (if 0 \<le> i \<and> i < int (length xs) then Some (xs ! nat i) else None)"

subsection \<open>The enumeration agrees with the structural semantics\<close>

lemma nth_checked_pure:
  "nth_checked (\<lambda>k. Inr (chg k)) want code ks cur i =
     Inr (map_option (\<lambda>k. Violation k code) (nth_or_none (filter (\<lambda>k. chg k = want) ks) (i - cur)))"
  if "cur \<le> i"
  using that
proof (induction ks arbitrary: cur)
  case Nil
  then show ?case by (simp add: nth_or_none_def)
next
  case (Cons k ks)
  show ?case
  proof (cases "chg k = want")
    case False
    with Cons show ?thesis by simp
  next
    case True
    show ?thesis
    proof (cases "cur = i")
      case True
      with \<open>chg k = want\<close> show ?thesis by (simp add: nth_or_none_def)
    next
      case False
      with Cons.prems have lt: "cur + 1 \<le> i" by simp
      have "nat (i - cur) = Suc (nat (i - (cur + 1)))" using lt by simp
      with Cons.IH[OF lt] \<open>chg k = want\<close> False lt show ?thesis
        by (auto simp add: nth_or_none_def)
    qed
  qed
qed

lemma RuleAllOf_scan_pure:
  "RuleAllOf_scan (\<lambda>k. Inr (chg k)) ks j sns ss idx =
     Inr (sns \<or> \<not> list_all chg ks, ss \<or> list_ex chg ks,
          if sns \<or> list_all chg ks then idx else j + length (takeWhile chg ks))"
  by (induction ks arbitrary: j sns ss idx) (auto simp add: Let_def)

lemma RuleAllOrNone_scan_pure:
  "RuleAllOrNone_scan (\<lambda>k. Inr (chg k)) ks j ss sns idx =
     Inr (ss \<or> list_ex chg ks, sns \<or> \<not> list_all chg ks,
          if sns \<or> list_all chg ks then idx else j + length (takeWhile chg ks))"
  by (induction ks arbitrary: j sns ss idx) (auto simp add: Let_def)

lemma RuleAnyOf_scan_pure:
  "RuleAnyOf_scan (\<lambda>k. Inr (chg k)) ks = Inr (list_ex chg ks)"
  by (induction ks) (auto split: bool.splits)

lemma filter_dropWhile_not: "filter P (dropWhile (\<lambda>x. \<not> P x) xs) = filter P xs"
  by (induction xs) auto

lemma drop_takeWhile_length: "drop (length (takeWhile P xs)) xs = dropWhile P xs"
  by (simp add: dropWhile_eq_drop)

lemma RuleOneOf_scan_seen:
  "RuleOneOf_scan (\<lambda>k. Inr (chg k)) ks j True idx =
     Inr (True, if list_ex chg ks then j + length (takeWhile (\<lambda>k. \<not> chg k) ks) else idx)"
  by (induction ks arbitrary: j) (auto split: bool.splits)

lemma RuleOneOf_scan_fresh:
  "RuleOneOf_scan (\<lambda>k. Inr (chg k)) ks j False idx =
     (case dropWhile (\<lambda>k. \<not> chg k) ks of
        [] \<Rightarrow> Inr (False, idx)
      | k # rest \<Rightarrow>
          RuleOneOf_scan (\<lambda>k. Inr (chg k)) rest
            (j + length (takeWhile (\<lambda>k. \<not> chg k) ks) + 1) True idx)"
proof (induction ks arbitrary: j)
  case Nil
  show ?case by simp
next
  case (Cons a ks)
  show ?case
  proof (cases "chg a")
    case True
    then show ?thesis by simp
  next
    case a: False
    show ?thesis
    proof (cases "dropWhile (\<lambda>k. \<not> chg k) ks")
      case Nil
      show ?thesis by (simp add: Cons.IH Nil a)
    next
      case (Cons k rest)
      show ?thesis by (simp add: Cons.IH Cons a)
    qed
  qed
qed

lemma filter_not_dropWhile: "filter (\<lambda>x. \<not> P x) (dropWhile P xs) = filter (\<lambda>x. \<not> P x) xs"
  by (induction xs) auto

lemma nth_or_none_map: "map_option f (nth_or_none xs i) = nth_or_none (map f xs) i"
  by (auto simp add: nth_or_none_def nat_less_iff)

lemma nth_or_none_Nil: "nth_or_none [] i = None"
  by (simp add: nth_or_none_def)

lemma nth_or_none_neg: "i < 0 \<Longrightarrow> nth_or_none xs i = None"
  by (simp add: nth_or_none_def)

lemma filter_unchanged_Nil: "list_all chg ks \<Longrightarrow> filter (\<lambda>k. \<not> chg k) ks = []"
  by (induction ks) auto

lemma RuleAllOf_NthEx_pure:
  "RuleAllOf_NthEx keys (\<lambda>k. Inr (chg k)) i =
     Inr (nth_or_none (structural_violations (RuleAllOf keys) chg) i)"
proof (cases "i < 0")
  case True
  then show ?thesis by (simp add: RuleAllOf_NthEx_def nth_or_none_neg)
next
  case nonneg: False
  show ?thesis
  proof (cases "list_all chg keys")
    case True
    with nonneg show ?thesis
      by (simp add: RuleAllOf_NthEx_def RuleAllOf_scan_pure filter_unchanged_Nil nth_or_none_Nil)
  next
    case False
    have "nth_checked (\<lambda>k. Inr (chg k)) False code (dropWhile chg keys) 0 i =
        Inr (nth_or_none (map (\<lambda>k. Violation k code) (filter (\<lambda>k. \<not> chg k) keys)) i)" for code
      using nonneg
      by (simp add: nth_checked_pure nth_or_none_map filter_not_dropWhile)
    with nonneg False show ?thesis
      by (simp add: RuleAllOf_NthEx_def RuleAllOf_scan_pure drop_takeWhile_length)
  qed
qed

lemma list_ex_unchanged: "list_ex (\<lambda>k. \<not> chg k) ks = (\<not> list_all chg ks)"
  by (induction ks) auto

lemma RuleAllOrNone_NthEx_pure:
  "RuleAllOrNone_NthEx keys (\<lambda>k. Inr (chg k)) i =
     Inr (nth_or_none (structural_violations (RuleAllOrNone keys) chg) i)"
proof (cases "i < 0")
  case True
  then show ?thesis by (simp add: RuleAllOrNone_NthEx_def nth_or_none_neg)
next
  case nonneg: False
  show ?thesis
  proof (cases "list_ex chg keys \<and> \<not> list_all chg keys")
    case False
    with nonneg show ?thesis
      by (auto simp add: RuleAllOrNone_NthEx_def RuleAllOrNone_scan_pure list_ex_unchanged
          nth_or_none_Nil)
  next
    case True
    have "nth_checked (\<lambda>k. Inr (chg k)) False code (dropWhile chg keys) 0 i =
        Inr (nth_or_none (map (\<lambda>k. Violation k code) (filter (\<lambda>k. \<not> chg k) keys)) i)" for code
      using nonneg
      by (simp add: nth_checked_pure nth_or_none_map filter_not_dropWhile)
    with nonneg True show ?thesis
      by (simp add: RuleAllOrNone_NthEx_def RuleAllOrNone_scan_pure list_ex_unchanged
          drop_takeWhile_length)
  qed
qed

lemma dropWhile_unchanged_Nil: "\<not> list_ex chg ks \<Longrightarrow> dropWhile (\<lambda>k. \<not> chg k) ks = []"
  by (induction ks) auto

lemma dropWhile_unchanged_Cons:
  "list_ex chg ks \<Longrightarrow> \<exists>k rest. dropWhile (\<lambda>k. \<not> chg k) ks = k # rest \<and> chg k"
  by (induction ks) auto

lemma RuleOneOf_NthEx_pure:
  "RuleOneOf_NthEx keys (\<lambda>k. Inr (chg k)) i =
     Inr (nth_or_none (structural_violations (RuleOneOf keys) chg) i)"
proof (cases "i < 0")
  case True
  then show ?thesis by (simp add: RuleOneOf_NthEx_def nth_or_none_neg)
next
  case nonneg: False
  show ?thesis
  proof (cases "list_ex chg keys")
    case False
    with nonneg show ?thesis
      by (simp add: RuleOneOf_NthEx_def RuleOneOf_scan_fresh dropWhile_unchanged_Nil
          nth_or_none_def)
  next
    case True
    then obtain k rest where dw: "dropWhile (\<lambda>k. \<not> chg k) keys = k # rest" and ck: "chg k"
      using dropWhile_unchanged_Cons by blast
    let ?n = "length (takeWhile (\<lambda>k. \<not> chg k) keys)"
    have keys: "drop (Suc ?n) keys = rest"
      using dw drop_takeWhile_length[of "\<lambda>k. \<not> chg k" keys]
      by (metis drop_Suc tl_drop list.sel(3))
    have fk: "filter chg keys = k # filter chg rest"
      using filter_dropWhile_not[of chg keys] dw ck by simp
    show ?thesis
    proof (cases "list_ex chg rest")
      case False
      then have "filter chg rest = []" by (induction rest) auto
      with nonneg True False dw fk show ?thesis
        by (simp add: RuleOneOf_NthEx_def RuleOneOf_scan_fresh RuleOneOf_scan_seen nth_or_none_Nil)
    next
      case more: True
      let ?m = "length (takeWhile (\<lambda>k. \<not> chg k) rest)"
      have "drop (?n + 1 + ?m) keys = dropWhile (\<lambda>k. \<not> chg k) rest"
        using keys drop_takeWhile_length[of "\<lambda>k. \<not> chg k" rest]
        by (metis Suc_eq_plus1 add.commute drop_drop)
      then have "nth_checked (\<lambda>k. Inr (chg k)) True ViolationCodeExcessiveOneOf
            (drop (?n + 1 + ?m) keys) 0 i =
          Inr (nth_or_none (map (\<lambda>k. Violation k ViolationCodeExcessiveOneOf) (filter chg rest)) i)"
        using nonneg by (simp add: nth_checked_pure nth_or_none_map filter_dropWhile_not)
      with nonneg True more dw fk show ?thesis
        by (simp add: RuleOneOf_NthEx_def RuleOneOf_scan_fresh RuleOneOf_scan_seen)
    qed
  qed
qed


lemma drain_finite:
  assumes g: "\<And>k. g k = Some (Inr (nth_or_none vs k))"
  shows "0 \<le> k \<Longrightarrow> k \<le> int (length vs) \<Longrightarrow>
    drain g i k =
      Some (Inr (if 0 \<le> i \<and> k + i < int (length vs) then Inl (vs ! nat (k + i))
                 else Inr (i - (int (length vs) - k))))"
proof (induction "nat (int (length vs) - k)" arbitrary: i k)
  case 0
  then have "k = int (length vs)" by simp
  then have "g k = Some (Inr None)" by (simp add: g nth_or_none_def)
  with \<open>k = int (length vs)\<close> show ?case by (subst drain.simps) auto
next
  case (Suc n)
  then have lt: "k < int (length vs)" and k0: "0 \<le> k" by simp_all
  then have gk: "g k = Some (Inr (Some (vs ! nat k)))" by (simp add: g nth_or_none_def)
  show ?case
  proof (cases "i = 0")
    case True
    with gk lt show ?thesis by (subst drain.simps) simp
  next
    case False
    have n: "n = nat (int (length vs) - (k + 1))" using Suc.hyps(2) by simp
    have step: "drain g i k = drain g (i - 1) (k + 1)"
      using gk False by (subst drain.simps) simp
    from Suc.hyps(1)[OF n, of "i - 1"] k0 lt
    have "drain g (i - 1) (k + 1) =
      Some (Inr (if 0 \<le> i - 1 \<and> k + 1 + (i - 1) < int (length vs)
                 then Inl (vs ! nat (k + 1 + (i - 1)))
                 else Inr (i - 1 - (int (length vs) - (k + 1)))))"
      by simp
    with step False lt k0 show ?thesis by (auto simp add: algebra_simps)
  qed
qed

lemma drain_from_zero:
  assumes g: "\<And>k. g k = Some (Inr (nth_or_none vs k))"
  shows "drain g i 0 =
      Some (Inr (if 0 \<le> i \<and> i < int (length vs) then Inl (vs ! nat i)
                 else Inr (i - int (length vs))))"
  using drain_finite[OF g, of 0 i] by simp

lemma MultiRule_loop_concat:
  assumes "list_all2 (\<lambda>g vs. \<forall>k. g k = Some (Inr (nth_or_none vs k))) gs vss"
  shows "MultiRule_loop gs i = Some (Inr (nth_or_none (concat vss) i))"
  using assms
proof (induction gs vss arbitrary: i rule: list_all2_induct)
  case Nil
  then show ?case by (simp add: nth_or_none_def)
next
  case (Cons g gs vs vss)
  from Cons.hyps(1) have g: "\<And>k. g k = Some (Inr (nth_or_none vs k))" by simp
  show ?case
  proof (cases "0 \<le> i \<and> i < int (length vs)")
    case True
    then have "nat i < length vs" by (simp add: nat_less_iff)
    with True show ?thesis
      by (simp add: drain_from_zero[OF g] nth_or_none_def nth_append)
  next
    case False
    have "drain g i 0 = Some (Inr (Inr (i - int (length vs))))"
      by (simp only: drain_from_zero[OF g] False if_False)
    then have "MultiRule_loop (g # gs) i = MultiRule_loop gs (i - int (length vs))"
      by simp
    also have "\<dots> = Some (Inr (nth_or_none (concat vss) (i - int (length vs))))"
      by (rule Cons.IH)
    also have "nth_or_none (concat vss) (i - int (length vs)) = nth_or_none (vs @ concat vss) i"
      using False by (auto simp add: nth_or_none_def nth_append nat_diff_distrib)
    finally show ?thesis by simp
  qed
qed


text \<open>
  Claim C2. For every rule built from Any, AllOf, AllOrNone, OneOf, AnyOf, Depends and
  Multi and every inspector that answers \<open>changed\<close>, each call \<open>NthEx r f i\<close> returns
  (it neither panics nor runs forever), and the sequence \<open>NthEx r f 0\<close>, \<open>NthEx r f 1\<close>, ...
  lists exactly the finite list of structural violations: the \<open>i\<close>-th violation for
  \<open>0 \<le> i < length\<close>, not-found for every other index.
\<close>

theorem NthEx_enumerates_structural_violations:
  "NthEx r (\<lambda>k. Inr (changed k)) i =
     Some (Inr (if 0 \<le> i \<and> i < int (length (structural_violations r changed))
                then Some (structural_violations r changed ! nat i) else None))"
proof -
  let ?f = "\<lambda>k. Inr (changed k) :: bool res"
  have "\<forall>i. NthEx r ?f i = Some (Inr (nth_or_none (structural_violations r changed) i))"
  proof (induction r)
    case RuleAny
    show ?case by (simp add: nth_or_none_def)
  next
    case (RuleAllOf keys)
    show ?case by (simp add: RuleAllOf_NthEx_pure del: structural_violations.simps)
  next
    case (RuleAllOrNone keys)
    show ?case by (simp add: RuleAllOrNone_NthEx_pure del: structural_violations.simps)
  next
    case (RuleOneOf keys)
    show ?case by (simp add: RuleOneOf_NthEx_pure del: structural_violations.simps)
  next
    case (RuleAnyOf keys)
    show ?case
      by (auto simp add: RuleAnyOf_NthEx_def RuleAnyOf_scan_pure nth_or_none_def)
  next
    case (RuleDepends ifX thenY elseZ)
    show ?case
    proof
      fix i
      have t: "\<And>k. NthEx thenY ?f k = Some (Inr (nth_or_none (structural_violations thenY changed) k))"
        using RuleDepends.IH(2) by simp
      have e: "\<And>k. NthEx elseZ ?f k = Some (Inr (nth_or_none (structural_violations elseZ changed) k))"
        using RuleDepends.IH(3) by simp
      have c: "NthEx ifX ?f 0 = Some (Inr (nth_or_none (structural_violations ifX changed) 0))"
        using RuleDepends.IH(1) by simp
      show "NthEx (RuleDepends ifX thenY elseZ) ?f i =
          Some (Inr (nth_or_none (structural_violations (RuleDepends ifX thenY elseZ) changed) i))"
      proof (cases "i < 0")
        case True
        then show ?thesis by (simp add: nth_or_none_def)
      next
        case False
        show ?thesis
        proof (cases "structural_violations ifX changed = []")
          case True
          with False c show ?thesis
            by (simp add: nth_or_none_def drain_from_zero[OF t] RuleDepends_finish_def)
        next
          case False
          with \<open>\<not> i < 0\<close> c show ?thesis
            by (simp add: nth_or_none_def drain_from_zero[OF e] RuleDepends_finish_def)
        qed
      qed
    qed
  next
    case (MultiRule rules)
    have "list_all2 (\<lambda>g vs. \<forall>k. g k = Some (Inr (nth_or_none vs k)))
            (map (\<lambda>rule. (\<lambda>j. NthEx rule ?f j)) rules)
            (map (\<lambda>rule. structural_violations rule changed) rules)"
      using MultiRule.IH by (simp add: list_all2_map1 list_all2_map2 list_all2_same)
    then show ?case by (simp add: MultiRule_loop_concat)
  qed
  then show ?thesis by (simp add: nth_or_none_def)
qed

theorem NthEx_enumerates_structural_violations_witness:
  "NthEx (MultiRule [RuleAllOf [''a'', ''b''], RuleDepends (RuleAnyOf [''b'']) RuleAny (RuleOneOf [''c'', ''d''])])
      (\<lambda>k. Inr (k = ''a'')) 2 =
     Some (Inr (Some (Violation ''d'' ViolationCodeEmptyOneOf)))"
  using NthEx_enumerates_structural_violations
    [of "MultiRule [RuleAllOf [''a'', ''b''], RuleDepends (RuleAnyOf [''b'']) RuleAny (RuleOneOf [''c'', ''d''])]"
        "\<lambda>k. k = ''a''" 2]
  by simp

section \<open>Errors, options, flags and commands\<close>

text \<open>The error values of the package that the modelled code returns (errors.go).\<close>

datatype error =
    ErrFlagUndefined string int
  | ErrFlagValueMissing string int
  | ErrFlagValueInvalid string string int int "error option"
  | ErrAmbiguousArgs string string int
  | ErrShorthandOfExplicitFlagInMiddle string string string
  | ErrFlagSetAtMostOnce
  | ErrInvalidValue string string bool
  | FlagViolation string ViolationCode
  | ErrRange
  | ErrSyntax
  | ErrHelpPending string int
  | ErrOther string

text \<open>
  \<^verbatim>\<open>time.Time\<close>, reduced to what the package reads of it: the instant, in nanoseconds
  since the zero time, and the name of the location. \<^verbatim>\<open>IsZero\<close> holds of the zero
  instant only.
\<close>

datatype GoTime = GoTime (sinceZero: int) (Location: string)

definition IsZero :: "GoTime \<Rightarrow> bool" where
  "IsZero t = (sinceZero t = 0)"

text \<open>
  \<^verbatim>\<open>ParseOptions\<close> (parse.go). \<open>HelpArgs = None\<close> is the nil slice. The error handler is
  a function of the arguments, the position and the error; a \<^verbatim>\<open>*ParseOptions\<close> that may
  be nil is a \<open>ParseOptions option\<close>.
\<close>

record ParseOptions =
  StartTime :: GoTime
  HandleParseError :: "(string list \<Rightarrow> int \<Rightarrow> error \<Rightarrow> error option) option"
  PosArgsBuf :: "string list"
  HelpArgs :: "string list option"

subsection \<open>Completion items and actions (comp.go)\<close>

datatype CompKind =
    CompKindText
  | CompKindFlagName
  | CompKindFlagValue
  | CompKindFiles
  | CompKindDirs

datatype CompItem = CompItem (Value: string) (Description: string) (Kind: CompKind)

text \<open>
  The built-in completion actions. \<^verbatim>\<open>CompActionStatic\<close> carries \<^verbatim>\<open>Suggestions\<close>,
  \<^verbatim>\<open>Want\<close> and \<^verbatim>\<open>State\<close>. \<^verbatim>\<open>CompActionFunc\<close> wraps a function of the caller's and is
  not part of the model.
\<close>

datatype CompAction =
    CompActionDisable
  | CompActionStatic "CompItem list" "32 word" "32 word"
  | CompActionDirs
  | CompActionFiles

subsection \<open>Flags and indexers (flag.go, flag_indexer.go)\<close>

text \<open>
  The \<^verbatim>\<open>Flag\<close> interface. A flag is an object behind a pointer: its methods read and
  write the program state \<open>'s\<close>, which holds the storage cells and the state bits of
  all flags. \<open>ImplyValue = None\<close> is \<^verbatim>\<open>("", false)\<close>. \<open>Decode\<close> returns the error (or
  none) and the new state, or panics. \<open>AsCompAction\<close> is the flag itself cast to
  \<^verbatim>\<open>CompAction\<close>, \<open>Extra\<close> its extra payload cast to \<^verbatim>\<open>CompAction\<close>.
\<close>

record 's Flag =
  ImplyValue :: "string option"
  Decode :: "ParseOptions option \<Rightarrow> string \<Rightarrow> string \<Rightarrow> bool \<Rightarrow> 's \<Rightarrow> (error option \<times> 's) res"
  AsCompAction :: "CompAction option"
  Extra :: "CompAction option"
  State :: "'s \<Rightarrow> 32 word"
  HasValue :: "'s \<Rightarrow> bool"
  PrintValue :: "'s \<Rightarrow> error + string"
  Usage :: string

definition FlagStateValueChanged :: "32 word" where "FlagStateValueChanged = 1"
definition FlagStateHidden :: "32 word" where "FlagStateHidden = 2"
definition FlagStateSetAtMostOnce :: "32 word" where "FlagStateSetAtMostOnce = 4"

definition ValueChanged :: "32 word \<Rightarrow> bool" where
  "ValueChanged m = (and m FlagStateValueChanged \<noteq> 0)"

definition Hidden :: "32 word \<Rightarrow> bool" where
  "Hidden m = (and m FlagStateHidden \<noteq> 0)"

definition SetAtMostOnce :: "32 word \<Rightarrow> bool" where
  "SetAtMostOnce m = (and m FlagStateSetAtMostOnce \<noteq> 0)"

record FlagInfo =
  Name :: string
  Shorthand :: string
  DefaultValue :: string
  InfoState :: "32 word"

text \<open>
  A \<^verbatim>\<open>FlagFinderMaybeIter\<close>: \<open>FindFlag\<close> is required, \<open>NthFlag\<close> is there when the
  value also implements \<^verbatim>\<open>FlagIter\<close>.
\<close>

record 's Indexer =
  FindFlag :: "string \<Rightarrow> 's Flag option"
  NthFlag :: "('s \<Rightarrow> int \<Rightarrow> FlagInfo option) option"

subsection \<open>Commands and routes (cmd.go, route.go)\<close>

text \<open>
  \<^verbatim>\<open>Cmd\<close> with the fields the modelled functions read; a nil \<^verbatim>\<open>Flags\<close>,
  \<^verbatim>\<open>LocalFlags\<close>, \<^verbatim>\<open>FlagRule\<close> or \<^verbatim>\<open>Completion\<close> is \<open>None\<close>. The hooks are not
  modelled.
\<close>

datatype 's Cmd = Cmd
  (Pattern: string)
  (BriefUsage: string)
  (Flags: "'s Indexer option")
  (LocalFlags: "'s Indexer option")
  (FlagRule: "Rule option")
  (Completion: "CompAction option")
  (Children: "'s Cmd list")
  (CmdState: "32 word")

type_synonym 's Route = "'s Cmd list"

text \<open>
  The finders a route can consult: the local flags and the shared flags of the command
  at an index of the route.
\<close>

datatype FinderSlot = LocalFlagsOf nat | FlagsOf nat

text \<open>
  The loop of \<^verbatim>\<open>Route.FindFlag\<close>, \<^verbatim>\<open>for i := len(route) - 1; i >= 0; i--\<close>; the
  argument \<open>Suc i\<close> stands for the loop variable \<open>i\<close>, \<open>0\<close> for the exit. The last
  argument logs the finders consulted so far.
\<close>

fun Route_FindFlag_loop :: "'s Route \<Rightarrow> nat \<Rightarrow> string \<Rightarrow> FinderSlot list
    \<Rightarrow> 's Flag option \<times> FinderSlot list" where
  "Route_FindFlag_loop route 0 name log = (None, log)"
| "Route_FindFlag_loop route (Suc i) name log =
    (case Flags (route ! i) of
       None \<Rightarrow> Route_FindFlag_loop route i name log
     | Some flags \<Rightarrow>
         (case FindFlag flags name of
            Some f \<Rightarrow> (Some f, log @ [FlagsOf i])
          | None \<Rightarrow> Route_FindFlag_loop route i name (log @ [FlagsOf i])))"

text \<open>
  \<^verbatim>\<open>Route.FindFlag\<close> with the log of consulted finders. On the empty route
  \<^verbatim>\<open>p.Target()\<close> is nil and reading its \<^verbatim>\<open>LocalFlags\<close> panics.
\<close>

definition Route_FindFlag_log :: "'s Route \<Rightarrow> string \<Rightarrow> ('s Flag option \<times> FinderSlot list) res" where
  "Route_FindFlag_log route name =
    (if route = [] then Inl PanicNilDereference
     else case LocalFlags (last route) of
       None \<Rightarrow> Inr (Route_FindFlag_loop route (length route) name [])
     | Some flags \<Rightarrow>
         (case FindFlag flags name of
            Some f \<Rightarrow> Inr (Some f, [LocalFlagsOf (length route - 1)])
          | None \<Rightarrow>
              Inr (Route_FindFlag_loop route (length route) name
                     [LocalFlagsOf (length route - 1)])))"

definition Route_FindFlag :: "'s Route \<Rightarrow> string \<Rightarrow> 's Flag option res" where
  "Route_FindFlag route name = map_sum id fst (Route_FindFlag_log route name)"

text \<open>\<^verbatim>\<open>Route.CheckFlagValueChanged\<close>, the inspector of the rule check in \<^verbatim>\<open>Cmd.Exec\<close>.\<close>

definition Route_CheckFlagValueChanged :: "'s Route \<Rightarrow> 's \<Rightarrow> string \<Rightarrow> bool res" where
  "Route_CheckFlagValueChanged route s name =
    (case Route_FindFlag route name of
       Inl p \<Rightarrow> Inl p
     | Inr None \<Rightarrow> Inl (PanicFlagUndefined name)
     | Inr (Some flag) \<Rightarrow> Inr (ValueChanged (State flag s)))"

text \<open>
  The rule check of \<^verbatim>\<open>Cmd.Exec\<close> for one command of the route:
  \<^verbatim>\<open>for k := 0; ; k++ { violation, ok := rule.NthEx(proute, k); if !ok { break };
        return &FlagViolation{...} }\<close>.
  The loop body returns or breaks in its first round, so only \<open>k = 0\<close> is asked. The
  result is the error \<^verbatim>\<open>Exec\<close> returns here, if any. Target resolution, default values
  and hooks of \<^verbatim>\<open>Exec\<close> are not modelled.
\<close>

definition Exec_check_rule :: "'s Route \<Rightarrow> 's Cmd \<Rightarrow> 's \<Rightarrow> error option res option" where
  "Exec_check_rule route c s =
    (case FlagRule c of
       None \<Rightarrow> Some (Inr None)
     | Some rule \<Rightarrow>
         (case NthEx rule (Route_CheckFlagValueChanged route s) 0 of
            None \<Rightarrow> None
          | Some (Inl p) \<Rightarrow> Some (Inl p)
          | Some (Inr None) \<Rightarrow> Some (Inr None)
          | Some (Inr (Some violation)) \<Rightarrow>
              Some (Inr (Some (FlagViolation (Key violation) (Reason violation))))))"

subsection \<open>The search order of a route\<close>

text \<open>
  The order of the specification: the target's local flags, then the shared flags of
  \<open>route[k-1]\<close> down to \<open>route[0]\<close>.
\<close>

definition search_order :: "'s Route \<Rightarrow> FinderSlot list" where
  "search_order route =
     LocalFlagsOf (length route - 1) # map FlagsOf (rev [0..<length route])"

definition finder_at :: "'s Route \<Rightarrow> FinderSlot \<Rightarrow> 's Indexer option" where
  "finder_at route slot =
    (case slot of LocalFlagsOf i \<Rightarrow> LocalFlags (route ! i) | FlagsOf i \<Rightarrow> Flags (route ! i))"

text \<open>
  Searching a list of finders in order: a nil finder is skipped, the first hit ends the
  search; the second component lists the finders asked.
\<close>

fun first_hit :: "'s Route \<Rightarrow> string \<Rightarrow> FinderSlot list \<Rightarrow> 's Flag option \<times> FinderSlot list" where
  "first_hit route name [] = (None, [])"
| "first_hit route name (slot # slots) =
    (case finder_at route slot of
       None \<Rightarrow> first_hit route name slots
     | Some flags \<Rightarrow>
         (case FindFlag flags name of
            Some f \<Rightarrow> (Some f, [slot])
          | None \<Rightarrow> (fst (first_hit route name slots), slot # snd (first_hit route name slots))))"
lemma first_hit_log_length: "length (snd (first_hit route name slots)) \<le> length slots"
  by (induction slots) (auto split: option.splits)

lemma Route_FindFlag_loop_first_hit:
  "Route_FindFlag_loop route n name log =
     (fst (first_hit route name (map FlagsOf (rev [0..<n]))),
      log @ snd (first_hit route name (map FlagsOf (rev [0..<n]))))"
  by (induction n arbitrary: log) (auto simp add: finder_at_def split: option.splits)

text \<open>
  Claim C3. For every route of length \<open>k \<ge> 1\<close> and every name, \<^verbatim>\<open>Route.FindFlag\<close>
  is the search over the \<open>k + 1\<close> finders of \<open>search_order\<close> (the target's local flags,
  then the shared flags of \<open>route[k-1]\<close> down to \<open>route[0]\<close>): it asks them in that
  order, skipping nil finders, returns the flag of the first finder that reports a hit
  and reports not-found only if all of them miss; it asks at most \<open>k + 1\<close> finders.
\<close>

theorem Route_FindFlag_searches_in_order:
  assumes "route \<noteq> []"
  shows "Route_FindFlag_log route name = Inr (first_hit route name (search_order route))
    \<and> Route_FindFlag route name = Inr (fst (first_hit route name (search_order route)))
    \<and> length (search_order route) = length route + 1
    \<and> length (snd (first_hit route name (search_order route))) \<le> length route + 1"
proof -
  have log: "Route_FindFlag_log route name = Inr (first_hit route name (search_order route))"
    using assms
    by (auto simp add: Route_FindFlag_log_def search_order_def finder_at_def last_conv_nth
        Route_FindFlag_loop_first_hit split: option.splits)
  have len: "length (search_order route) = length route + 1"
    by (simp add: search_order_def)
  have "length (snd (first_hit route name (search_order route))) \<le> length (search_order route)"
    by (rule first_hit_log_length)
  with log len show ?thesis by (simp add: Route_FindFlag_def)
qed


text \<open>\<^verbatim>\<open>Rule.Contains\<close>: does the rule mention the key?\<close>

fun Contains :: "Rule \<Rightarrow> string \<Rightarrow> bool" where
  "Contains RuleAny key = False"
| "Contains (RuleAllOf keys) key = (key \<in> set keys)"
| "Contains (RuleAllOrNone keys) key = (key \<in> set keys)"
| "Contains (RuleOneOf keys) key = (key \<in> set keys)"
| "Contains (RuleAnyOf keys) key = (key \<in> set keys)"
| "Contains (RuleDepends ifX thenY elseZ) key =
     (Contains ifX key \<or> Contains thenY key \<or> Contains elseZ key)"
| "Contains (MultiRule rules) key = list_ex (\<lambda>rule. Contains rule key) rules"

text \<open>
  The first key whose check \<^verbatim>\<open>NthEx\<close> asks the inspector for, when it asks for any:
  the first stored key of a key rule, the first key of the condition of a dependency
  (of its then-branch when the condition has no key to ask), the first key of the first
  rule of a multi-rule that asks for one.
\<close>

fun first_consulted_key :: "Rule \<Rightarrow> string option" where
  "first_consulted_key RuleAny = None"
| "first_consulted_key (RuleAllOf keys) = (case keys of [] \<Rightarrow> None | k # _ \<Rightarrow> Some k)"
| "first_consulted_key (RuleAllOrNone keys) = (case keys of [] \<Rightarrow> None | k # _ \<Rightarrow> Some k)"
| "first_consulted_key (RuleOneOf keys) = (case keys of [] \<Rightarrow> None | k # _ \<Rightarrow> Some k)"
| "first_consulted_key (RuleAnyOf keys) = (case keys of [] \<Rightarrow> None | k # _ \<Rightarrow> Some k)"
| "first_consulted_key (RuleDepends ifX thenY elseZ) =
     (case first_consulted_key ifX of
        Some k \<Rightarrow> Some k
      | None \<Rightarrow> first_consulted_key thenY)"
| "first_consulted_key (MultiRule rules) =
     (case concat (map (\<lambda>rule. case first_consulted_key rule of None \<Rightarrow> [] | Some k \<Rightarrow> [k]) rules) of
        [] \<Rightarrow> None
      | k # _ \<Rightarrow> Some k)"

lemma drain_panic: "g k = Some (Inl p) \<Longrightarrow> drain g i k = Some (Inl p)"
  by (subst drain.simps) simp

lemma drain_nothing: "g k = Some (Inr None) \<Longrightarrow> drain g i k = Some (Inr (Inr i))"
  by (subst drain.simps) simp

lemma NthEx_first_consulted_key:
  "(\<forall>k p i. first_consulted_key r = Some k \<longrightarrow> f k = Inl p \<longrightarrow> 0 \<le> i \<longrightarrow>
      NthEx r f i = Some (Inl p))
   \<and> (first_consulted_key r = None \<longrightarrow> (\<forall>i. NthEx r f i = Some (Inr None)))"
proof (induction r)
  case RuleAny
  show ?case by simp
next
  case (RuleAllOf keys)
  show ?case by (cases keys) (auto simp add: RuleAllOf_NthEx_def)
next
  case (RuleAllOrNone keys)
  show ?case by (cases keys) (auto simp add: RuleAllOrNone_NthEx_def)
next
  case (RuleOneOf keys)
  show ?case by (cases keys) (auto simp add: RuleOneOf_NthEx_def)
next
  case (RuleAnyOf keys)
  show ?case by (cases keys) (auto simp add: RuleAnyOf_NthEx_def)
next
  case (RuleDepends ifX thenY elseZ)
  show ?case
  proof (cases "first_consulted_key ifX")
    case (Some k)
    with RuleDepends.IH(1) show ?thesis by auto
  next
    case None
    with RuleDepends.IH(1) have a: "NthEx ifX f 0 = Some (Inr None)" by simp
    show ?thesis
    proof (cases "first_consulted_key thenY")
      case (Some k)
      with RuleDepends.IH(2) None a show ?thesis
        by (auto simp add: drain_panic RuleDepends_finish_def)
    next
      case n: None
      with RuleDepends.IH(2) None a show ?thesis
        by (auto simp add: drain_nothing RuleDepends_finish_def)
    qed
  qed
next
  case (MultiRule rules)
  then show ?case
  proof (induction rules)
    case Nil
    show ?case by simp
  next
    case (Cons r rs)
    then have IHrs:
      "(\<forall>k p i. first_consulted_key (MultiRule rs) = Some k \<longrightarrow> f k = Inl p \<longrightarrow> 0 \<le> i \<longrightarrow>
          NthEx (MultiRule rs) f i = Some (Inl p))
       \<and> (first_consulted_key (MultiRule rs) = None \<longrightarrow>
            (\<forall>i. NthEx (MultiRule rs) f i = Some (Inr None)))"
      by simp
    from Cons.prems have IHr:
      "(\<forall>k p i. first_consulted_key r = Some k \<longrightarrow> f k = Inl p \<longrightarrow> 0 \<le> i \<longrightarrow>
          NthEx r f i = Some (Inl p))
       \<and> (first_consulted_key r = None \<longrightarrow> (\<forall>i. NthEx r f i = Some (Inr None)))"
      by simp
    show ?case
    proof (cases "first_consulted_key r")
      case (Some k)
      with IHr show ?thesis by (auto simp add: drain_panic)
    next
      case None
      with IHr have "\<And>i. drain (\<lambda>j. NthEx r f j) i 0 = Some (Inr (Inr i))"
        by (simp add: drain_nothing)
      with None IHrs show ?thesis by simp
    qed
  qed
qed

subsection \<open>The keys a rule evaluation asks the inspector for\<close>

text \<open>
  The enumeration once more, with a log: every call \<^verbatim>\<open>f.CheckFlagValueChanged(key)\<close>
  appends the key to the log before its result is looked at. The functions are those of
  the section on the flag rules with the log as one more argument and one more result;
  the first component of their result is the result of the function without the log.
\<close>

fun nth_checked_log :: "Inspector \<Rightarrow> bool \<Rightarrow> ViolationCode \<Rightarrow> string list \<Rightarrow> int \<Rightarrow> int
    \<Rightarrow> string list \<Rightarrow> Violation option res \<times> string list" where
  "nth_checked_log f wanted code [] cur i asked = (Inr None, asked)"
| "nth_checked_log f wanted code (key # rest) cur i asked =
    (case f key of
       Inl e \<Rightarrow> (Inl e, asked @ [key])
     | Inr b \<Rightarrow>
         if b \<noteq> wanted then nth_checked_log f wanted code rest cur i (asked @ [key])
         else if cur = i then (Inr (Some (Violation key code)), asked @ [key])
         else nth_checked_log f wanted code rest (cur + 1) i (asked @ [key]))"

fun RuleAllOf_scan_log :: "Inspector \<Rightarrow> string list \<Rightarrow> nat \<Rightarrow> bool \<Rightarrow> bool \<Rightarrow> nat
    \<Rightarrow> string list \<Rightarrow> (bool \<times> bool \<times> nat) res \<times> string list" where
  "RuleAllOf_scan_log f [] j someNotSet someSet idxFirstNotSet asked =
     (Inr (someNotSet, someSet, idxFirstNotSet), asked)"
| "RuleAllOf_scan_log f (name # rest) j someNotSet someSet idxFirstNotSet asked =
    (case f name of
       Inl e \<Rightarrow> (Inl e, asked @ [name])
     | Inr True \<Rightarrow>
         if someNotSet then (Inr (someNotSet, True, idxFirstNotSet), asked @ [name])
         else RuleAllOf_scan_log f rest (j + 1) someNotSet True idxFirstNotSet (asked @ [name])
     | Inr False \<Rightarrow>
         (let idx = (if \<not> someNotSet then j else idxFirstNotSet) in
          if someSet then (Inr (True, someSet, idx), asked @ [name])
          else RuleAllOf_scan_log f rest (j + 1) True someSet idx (asked @ [name])))"

definition RuleAllOf_NthEx_log :: "string list \<Rightarrow> Inspector \<Rightarrow> int \<Rightarrow> string list
    \<Rightarrow> Violation option res \<times> string list" where
  "RuleAllOf_NthEx_log keys f i asked =
    (if i < 0 then (Inr None, asked)
     else case RuleAllOf_scan_log f keys 0 False False 0 asked of
       (Inl e, asked') \<Rightarrow> (Inl e, asked')
     | (Inr (someNotSet, someSet, idxFirstNotSet), asked') \<Rightarrow>
         if someNotSet then
           nth_checked_log f False
             (if someSet then ViolationCodePartialAllOf else ViolationCodeEmptyAllOf)
             (drop idxFirstNotSet keys) 0 i asked'
         else (Inr None, asked'))"

fun RuleAllOrNone_scan_log :: "Inspector \<Rightarrow> string list \<Rightarrow> nat \<Rightarrow> bool \<Rightarrow> bool \<Rightarrow> nat
    \<Rightarrow> string list \<Rightarrow> (bool \<times> bool \<times> nat) res \<times> string list" where
  "RuleAllOrNone_scan_log f [] j someSet someNotSet idxFirstNotSet asked =
     (Inr (someSet, someNotSet, idxFirstNotSet), asked)"
| "RuleAllOrNone_scan_log f (name # rest) j someSet someNotSet idxFirstNotSet asked =
    (case f name of
       Inl e \<Rightarrow> (Inl e, asked @ [name])
     | Inr True \<Rightarrow>
         if someNotSet then (Inr (True, someNotSet, idxFirstNotSet), asked @ [name])
         else RuleAllOrNone_scan_log f rest (j + 1) True someNotSet idxFirstNotSet (asked @ [name])
     | Inr False \<Rightarrow>
         if \<not> someNotSet then
           (if someSet then (Inr (someSet, True, j), asked @ [name])
            else RuleAllOrNone_scan_log f rest (j + 1) someSet True j (asked @ [name]))
         else RuleAllOrNone_scan_log f rest (j + 1) someSet someNotSet idxFirstNotSet
                (asked @ [name]))"

definition RuleAllOrNone_NthEx_log :: "string list \<Rightarrow> Inspector \<Rightarrow> int \<Rightarrow> string list
    \<Rightarrow> Violation option res \<times> string list" where
  "RuleAllOrNone_NthEx_log keys f i asked =
    (if i < 0 then (Inr None, asked)
     else case RuleAllOrNone_scan_log f keys 0 False False 0 asked of
       (Inl e, asked') \<Rightarrow> (Inl e, asked')
     | (Inr (someSet, someNotSet, idxFirstNotSet), asked') \<Rightarrow>
         if someSet \<and> someNotSet then
           nth_checked_log f False ViolationCodePartialAllOrNone (drop idxFirstNotSet keys) 0 i
             asked'
         else (Inr None, asked'))"

fun RuleOneOf_scan_log :: "Inspector \<Rightarrow> string list \<Rightarrow> nat \<Rightarrow> bool \<Rightarrow> nat \<Rightarrow> string list
    \<Rightarrow> (bool \<times> nat) res \<times> string list" where
  "RuleOneOf_scan_log f [] j someSet idxSecondSet asked = (Inr (someSet, idxSecondSet), asked)"
| "RuleOneOf_scan_log f (name # rest) j someSet idxSecondSet asked =
    (case f name of
       Inl e \<Rightarrow> (Inl e, asked @ [name])
     | Inr False \<Rightarrow> RuleOneOf_scan_log f rest (j + 1) someSet idxSecondSet (asked @ [name])
     | Inr True \<Rightarrow>
         if \<not> someSet then RuleOneOf_scan_log f rest (j + 1) True idxSecondSet (asked @ [name])
         else (Inr (someSet, j), asked @ [name]))"

definition RuleOneOf_NthEx_log :: "string list \<Rightarrow> Inspector \<Rightarrow> int \<Rightarrow> string list
    \<Rightarrow> Violation option res \<times> string list" where
  "RuleOneOf_NthEx_log keys f i asked =
    (if i < 0 then (Inr None, asked)
     else case RuleOneOf_scan_log f keys 0 False 0 asked of
       (Inl e, asked') \<Rightarrow> (Inl e, asked')
     | (Inr (someSet, idxSecondSet), asked') \<Rightarrow>
         if \<not> someSet then
           (if i < int (length keys) \<and> i \<ge> 0
            then (Inr (Some (Violation (keys ! nat i) ViolationCodeEmptyOneOf)), asked')
            else (Inr None, asked'))
         else if idxSecondSet \<noteq> 0 then
           nth_checked_log f True ViolationCodeExcessiveOneOf (drop idxSecondSet keys) 0 i asked'
         else (Inr None, asked'))"

fun RuleAnyOf_scan_log :: "Inspector \<Rightarrow> string list \<Rightarrow> string list \<Rightarrow> bool res \<times> string list" where
  "RuleAnyOf_scan_log f [] asked = (Inr False, asked)"
| "RuleAnyOf_scan_log f (name # rest) asked =
    (case f name of
       Inl e \<Rightarrow> (Inl e, asked @ [name])
     | Inr True \<Rightarrow> (Inr True, asked @ [name])
     | Inr False \<Rightarrow> RuleAnyOf_scan_log f rest (asked @ [name]))"

definition RuleAnyOf_NthEx_log :: "string list \<Rightarrow> Inspector \<Rightarrow> int \<Rightarrow> string list
    \<Rightarrow> Violation option res \<times> string list" where
  "RuleAnyOf_NthEx_log keys f i asked =
    (if i < 0 then (Inr None, asked)
     else case RuleAnyOf_scan_log f keys asked of
       (Inl e, asked') \<Rightarrow> (Inl e, asked')
     | (Inr someSet, asked') \<Rightarrow>
         if \<not> someSet \<and> i < int (length keys) \<and> i \<ge> 0
         then (Inr (Some (Violation (keys ! nat i) ViolationCodeEmptyAnyOf)), asked')
         else (Inr None, asked'))"

partial_function (option) drain_log ::
  "(int \<Rightarrow> string list \<Rightarrow> (Violation option res \<times> string list) option) \<Rightarrow> int \<Rightarrow> int
    \<Rightarrow> string list \<Rightarrow> ((Violation + int) res \<times> string list) option" where
  "drain_log g i k asked =
    (case g k asked of
       None \<Rightarrow> None
     | Some (Inl e, asked') \<Rightarrow> Some (Inl e, asked')
     | Some (Inr None, asked') \<Rightarrow> Some (Inr (Inr i), asked')
     | Some (Inr (Some v), asked') \<Rightarrow>
         if i = 0 then Some (Inr (Inl v), asked') else drain_log g (i - 1) (k + 1) asked')"

lemma drain_log_cong [fundef_cong]:
  "(\<And>k l. g k l = g' k l) \<Longrightarrow> i = i' \<Longrightarrow> k0 = k0' \<Longrightarrow> asked = asked' \<Longrightarrow>
    drain_log g i k0 asked = drain_log g' i' k0' asked'"
proof -
  assume "\<And>k l. g k l = g' k l" and "i = i'" and "k0 = k0'" and "asked = asked'"
  then have "g = g'" by (simp add: fun_eq_iff)
  with \<open>i = i'\<close> \<open>k0 = k0'\<close> \<open>asked = asked'\<close> show ?thesis by simp
qed

fun MultiRule_loop_log ::
  "(int \<Rightarrow> string list \<Rightarrow> (Violation option res \<times> string list) option) list \<Rightarrow> int
    \<Rightarrow> string list \<Rightarrow> (Violation option res \<times> string list) option" where
  "MultiRule_loop_log [] i asked = Some (Inr None, asked)"
| "MultiRule_loop_log (g # gs) i asked =
    (case drain_log g i 0 asked of
       None \<Rightarrow> None
     | Some (Inl e, asked') \<Rightarrow> Some (Inl e, asked')
     | Some (Inr (Inl v), asked') \<Rightarrow> Some (Inr (Some v), asked')
     | Some (Inr (Inr i'), asked') \<Rightarrow> MultiRule_loop_log gs i' asked')"

definition RuleDepends_finish_log :: "((Violation + int) res \<times> string list) option
    \<Rightarrow> (Violation option res \<times> string list) option" where
  "RuleDepends_finish_log r =
    (case r of
       None \<Rightarrow> None
     | Some (Inl e, asked') \<Rightarrow> Some (Inl e, asked')
     | Some (Inr (Inl v), asked') \<Rightarrow> Some (Inr (Some v), asked')
     | Some (Inr (Inr i'), asked') \<Rightarrow> Some (Inr None, asked'))"

fun NthEx_log :: "Rule \<Rightarrow> Inspector \<Rightarrow> int \<Rightarrow> string list
    \<Rightarrow> (Violation option res \<times> string list) option" where
  "NthEx_log RuleAny f i asked = Some (Inr None, asked)"
| "NthEx_log (RuleAllOf keys) f i asked = Some (RuleAllOf_NthEx_log keys f i asked)"
| "NthEx_log (RuleAllOrNone keys) f i asked = Some (RuleAllOrNone_NthEx_log keys f i asked)"
| "NthEx_log (RuleOneOf keys) f i asked = Some (RuleOneOf_NthEx_log keys f i asked)"
| "NthEx_log (RuleAnyOf keys) f i asked = Some (RuleAnyOf_NthEx_log keys f i asked)"
| "NthEx_log (RuleDepends ifX thenY elseZ) f i asked =
    (if i < 0 then Some (Inr None, asked)
     else case NthEx_log ifX f 0 asked of
       None \<Rightarrow> None
     | Some (Inl e, asked') \<Rightarrow> Some (Inl e, asked')
     | Some (Inr None, asked') \<Rightarrow>
         RuleDepends_finish_log (drain_log (\<lambda>k l. NthEx_log thenY f k l) i 0 asked')
     | Some (Inr (Some v), asked') \<Rightarrow>
         RuleDepends_finish_log (drain_log (\<lambda>k l. NthEx_log elseZ f k l) i 0 asked'))"
| "NthEx_log (MultiRule rules) f i asked =
     MultiRule_loop_log (map (\<lambda>rule. (\<lambda>j l. NthEx_log rule f j l)) rules) i asked"

text \<open>Without the log, the functions are those of the enumeration.\<close>

lemma nth_checked_log_fst:
  "fst (nth_checked_log f wanted code ks cur i asked) = nth_checked f wanted code ks cur i"
  by (induction ks arbitrary: cur asked) (auto split: sum.splits)

lemma RuleAllOf_scan_log_fst:
  "fst (RuleAllOf_scan_log f ks j sns ss idx asked) = RuleAllOf_scan f ks j sns ss idx"
  by (induction ks arbitrary: j sns ss idx asked) (auto simp add: Let_def split: sum.splits bool.splits)

lemma RuleAllOrNone_scan_log_fst:
  "fst (RuleAllOrNone_scan_log f ks j ss sns idx asked) = RuleAllOrNone_scan f ks j ss sns idx"
  by (induction ks arbitrary: j sns ss idx asked) (auto split: sum.splits bool.splits)

lemma RuleOneOf_scan_log_fst:
  "fst (RuleOneOf_scan_log f ks j ss idx asked) = RuleOneOf_scan f ks j ss idx"
  by (induction ks arbitrary: j ss idx asked) (auto split: sum.splits bool.splits)

lemma RuleAnyOf_scan_log_fst:
  "fst (RuleAnyOf_scan_log f ks asked) = RuleAnyOf_scan f ks"
  by (induction ks arbitrary: asked) (auto split: sum.splits bool.splits)

lemma RuleAllOf_NthEx_log_fst:
  "fst (RuleAllOf_NthEx_log keys f i asked) = RuleAllOf_NthEx keys f i"
  using RuleAllOf_scan_log_fst[of f keys 0 False False 0 asked]
  by (cases "RuleAllOf_scan_log f keys 0 False False 0 asked")
     (auto simp add: RuleAllOf_NthEx_log_def RuleAllOf_NthEx_def nth_checked_log_fst
       split: sum.splits)

lemma RuleAllOrNone_NthEx_log_fst:
  "fst (RuleAllOrNone_NthEx_log keys f i asked) = RuleAllOrNone_NthEx keys f i"
  using RuleAllOrNone_scan_log_fst[of f keys 0 False False 0 asked]
  by (cases "RuleAllOrNone_scan_log f keys 0 False False 0 asked")
     (auto simp add: RuleAllOrNone_NthEx_log_def RuleAllOrNone_NthEx_def nth_checked_log_fst
       split: sum.splits)

lemma RuleOneOf_NthEx_log_fst:
  "fst (RuleOneOf_NthEx_log keys f i asked) = RuleOneOf_NthEx keys f i"
  using RuleOneOf_scan_log_fst[of f keys 0 False 0 asked]
  by (cases "RuleOneOf_scan_log f keys 0 False 0 asked")
     (auto simp add: RuleOneOf_NthEx_log_def RuleOneOf_NthEx_def nth_checked_log_fst
       split: sum.splits)

lemma RuleAnyOf_NthEx_log_fst:
  "fst (RuleAnyOf_NthEx_log keys f i asked) = RuleAnyOf_NthEx keys f i"
  using RuleAnyOf_scan_log_fst[of f keys asked]
  by (cases "RuleAnyOf_scan_log f keys asked")
     (auto simp add: RuleAnyOf_NthEx_log_def RuleAnyOf_NthEx_def split: sum.splits)

lemma drain_log_drain_aux:
  assumes "drain_log g i k asked = Some y"
  shows "(\<forall>k l. map_option fst (g k l) = g' k) \<longrightarrow> drain g' i k = Some (fst y)"
proof (rule drain_log.raw_induct
    [where P = "\<lambda>g i k asked y.
                  (\<forall>k l. map_option fst (g k l) = g' k) \<longrightarrow> drain g' i k = Some (fst y)",
      OF _ assms], goal_cases)
  case (1 loop g i k asked y)
  show ?case
  proof
    assume g: "\<forall>k l. map_option fst (g k l) = g' k"
    show "drain g' i k = Some (fst y)"
    proof (cases "g k asked")
      case None
      with 1(2) show ?thesis by simp
    next
      case (Some r)
      obtain res asked' where r: "r = (res, asked')" by (cases r) auto
      with Some g have g': "g' k = Some res" by (metis fst_conv option.simps(9))
      show ?thesis
      proof (cases res)
        case (Inl e)
        with Some r 1(2) g' show ?thesis by (subst drain.simps) auto
      next
        case (Inr found)
        show ?thesis
        proof (cases found)
          case None
          with Inr Some r 1(2) g' show ?thesis by (subst drain.simps) auto
        next
          case (Some v)
          show ?thesis
          proof (cases "i = 0")
            case True
            with Some Inr \<open>g k asked = Some r\<close> r 1(2) g' show ?thesis
              by (subst drain.simps) auto
          next
            case False
            with Some Inr \<open>g k asked = Some r\<close> r 1(2)
            have "loop g (i - 1) (k + 1) asked' = Some y" by simp
            from 1(1)[OF this] g have "drain g' (i - 1) (k + 1) = Some (fst y)" by simp
            with False Some Inr g' show ?thesis by (subst drain.simps) simp
          qed
        qed
      qed
    qed
  qed
qed

lemma drain_drain_log_aux:
  assumes "drain g' i k = Some y"
  shows "\<forall>g asked. (\<forall>k l. map_option fst (g k l) = g' k) \<longrightarrow>
    (\<exists>asked'. drain_log g i k asked = Some (y, asked'))"
proof (rule drain.raw_induct
    [where P = "\<lambda>g' i k y. \<forall>g asked. (\<forall>k l. map_option fst (g k l) = g' k) \<longrightarrow>
                  (\<exists>asked'. drain_log g i k asked = Some (y, asked'))",
      OF _ assms], goal_cases)
  case (1 loop g' i k y)
  show ?case
  proof (intro allI impI)
    fix g :: "int \<Rightarrow> string list \<Rightarrow> (Violation option res \<times> string list) option"
      and asked
    assume g: "\<forall>k l. map_option fst (g k l) = g' k"
    show "\<exists>asked'. drain_log g i k asked = Some (y, asked')"
    proof (cases "g k asked")
      case None
      with g have "g' k = None" by (metis option.simps(8))
      with 1(2) show ?thesis by simp
    next
      case (Some r)
      obtain res asked' where r: "r = (res, asked')" by (cases r) auto
      with Some g have g': "g' k = Some res" by (metis fst_conv option.simps(9))
      show ?thesis
      proof (cases res)
        case (Inl e)
        with Some r 1(2) g' show ?thesis by (subst drain_log.simps) auto
      next
        case (Inr found)
        show ?thesis
        proof (cases found)
          case None
          with Inr Some r 1(2) g' show ?thesis by (subst drain_log.simps) auto
        next
          case (Some v)
          show ?thesis
          proof (cases "i = 0")
            case True
            with Some Inr \<open>g k asked = Some r\<close> r 1(2) g' show ?thesis
              by (subst drain_log.simps) auto
          next
            case False
            with Some Inr g' 1(2) have "loop g' (i - 1) (k + 1) = Some y" by simp
            from 1(1)[OF this] g obtain a where
              "drain_log g (i - 1) (k + 1) asked' = Some (y, a)" by blast
            with False Some Inr \<open>g k asked = Some r\<close> r show ?thesis
              by (subst drain_log.simps) simp
          qed
        qed
      qed
    qed
  qed
qed

lemma drain_log_drain:
  assumes g: "\<And>k l. map_option fst (g k l) = g' k"
    and "drain_log g i k asked = Some y"
  shows "drain g' i k = Some (fst y)"
  using drain_log_drain_aux[OF assms(2), of g'] g by simp

lemma drain_drain_log:
  assumes g: "\<And>k l. map_option fst (g k l) = g' k"
    and "drain g' i k = Some y"
  shows "\<exists>asked'. drain_log g i k asked = Some (y, asked')"
  using drain_drain_log_aux[OF assms(2)] g by simp

lemma drain_log_fst:
  assumes g: "\<And>k l. map_option fst (g k l) = g' k"
  shows "map_option fst (drain_log g i k asked) = drain g' i k"
proof (cases "drain g' i k")
  case None
  show ?thesis
  proof (cases "drain_log g i k asked")
    case n: None
    with None show ?thesis by simp
  next
    case (Some y)
    from drain_log_drain[OF g Some] None show ?thesis by simp
  qed
next
  case (Some y)
  from drain_drain_log[OF g Some, where asked = asked] Some show ?thesis by auto
qed

lemma RuleDepends_finish_log_fst:
  "map_option fst (RuleDepends_finish_log r) = RuleDepends_finish (map_option fst r)"
  by (auto simp add: RuleDepends_finish_log_def RuleDepends_finish_def
      split: option.splits sum.splits prod.splits)

lemma NthEx_log_fst: "map_option fst (NthEx_log r f i asked) = NthEx r f i"
proof (induction r arbitrary: i asked)
  case RuleAny
  show ?case by simp
next
  case (RuleAllOf keys)
  show ?case by (simp add: RuleAllOf_NthEx_log_fst)
next
  case (RuleAllOrNone keys)
  show ?case by (simp add: RuleAllOrNone_NthEx_log_fst)
next
  case (RuleOneOf keys)
  show ?case by (simp add: RuleOneOf_NthEx_log_fst)
next
  case (RuleAnyOf keys)
  show ?case by (simp add: RuleAnyOf_NthEx_log_fst)
next
  case (RuleDepends ifX thenY elseZ)
  have thenY: "map_option fst (drain_log (\<lambda>k l. NthEx_log thenY f k l) i 0 a)
      = drain (\<lambda>k. NthEx thenY f k) i 0" for a
    by (rule drain_log_fst) (rule RuleDepends.IH(2))
  have elseZ: "map_option fst (drain_log (\<lambda>k l. NthEx_log elseZ f k l) i 0 a)
      = drain (\<lambda>k. NthEx elseZ f k) i 0" for a
    by (rule drain_log_fst) (rule RuleDepends.IH(3))
  show ?case
  proof (cases "i < 0")
    case True
    then show ?thesis by simp
  next
    case False
    show ?thesis
    proof (cases "NthEx_log ifX f 0 asked")
      case None
      with RuleDepends.IH(1)[of 0 asked] False show ?thesis by simp
    next
      case (Some y)
      obtain res a where y: "y = (res, a)" by (cases y) auto
      with Some RuleDepends.IH(1)[of 0 asked] have c: "NthEx ifX f 0 = Some res" by simp
      show ?thesis
      proof (cases res)
        case (Inl e)
        with Some y c False show ?thesis by simp
      next
        case (Inr found)
        with Some y c False thenY[of a] elseZ[of a] show ?thesis
          by (cases found) (simp_all add: RuleDepends_finish_log_fst)
      qed
    qed
  qed
next
  case (MultiRule rules)
  have "map_option fst
      (MultiRule_loop_log (map (\<lambda>rule. (\<lambda>j l. NthEx_log rule f j l)) rules) i asked)
    = MultiRule_loop (map (\<lambda>rule. (\<lambda>j. NthEx rule f j)) rules) i"
    using MultiRule.IH
  proof (induction rules arbitrary: i asked)
    case Nil
    show ?case by simp
  next
    case (Cons r rs)
    have d: "map_option fst (drain_log (\<lambda>j l. NthEx_log r f j l) i 0 asked)
        = drain (\<lambda>j. NthEx r f j) i 0"
      by (rule drain_log_fst) (simp add: Cons.prems)
    have rest: "map_option fst
        (MultiRule_loop_log (map (\<lambda>rule. (\<lambda>j l. NthEx_log rule f j l)) rs) i' asked')
      = MultiRule_loop (map (\<lambda>rule. (\<lambda>j. NthEx rule f j)) rs) i'" for i' asked'
      by (rule Cons.IH) (simp add: Cons.prems)
    show ?case
    proof (cases "drain_log (\<lambda>j l. NthEx_log r f j l) i 0 asked")
      case None
      with d show ?thesis by simp
    next
      case (Some y)
      obtain res a where y: "y = (res, a)" by (cases y) auto
      with Some d have dd: "drain (\<lambda>j. NthEx r f j) i 0 = Some res" by simp
      show ?thesis
      proof (cases res)
        case (Inl e)
        with Some y dd show ?thesis by simp
      next
        case (Inr found)
        with Some y dd rest show ?thesis by (cases found) simp_all
      qed
    qed
  qed
  then show ?case by simp
qed

text \<open>
  The log of a run that started with answered keys only: every key in it was answered,
  except that the last key of a run that panicked is the key whose check panicked, with
  that panic.
\<close>

definition answered :: "Inspector \<Rightarrow> string list \<Rightarrow> bool" where
  "answered f asked = list_all (\<lambda>k. \<not> isl (f k)) asked"

definition asked_sound :: "Inspector \<Rightarrow> 'a res \<Rightarrow> string list \<Rightarrow> bool" where
  "asked_sound f r asked =
    (case r of
       Inl p \<Rightarrow> asked \<noteq> [] \<and> f (last asked) = Inl p \<and> answered f (butlast asked)
     | Inr v \<Rightarrow> answered f asked)"

lemma asked_sound_panic:
  "answered f asked \<Longrightarrow> f key = Inl e \<Longrightarrow> asked_sound f (Inl e) (asked @ [key])"
  by (simp add: asked_sound_def)

lemma asked_sound_answer:
  "answered f asked \<Longrightarrow> f key = Inr b \<Longrightarrow> answered f (asked @ [key])"
  by (simp add: answered_def)

lemma asked_sound_Inr: "asked_sound f (Inr v) asked = answered f asked"
  by (simp add: asked_sound_def)

lemma nth_checked_log_sound:
  "answered f asked \<Longrightarrow>
    asked_sound f (fst (nth_checked_log f wanted code ks cur i asked))
      (snd (nth_checked_log f wanted code ks cur i asked))"
proof (induction ks arbitrary: cur asked)
  case Nil
  then show ?case by (simp add: asked_sound_Inr)
next
  case (Cons key rest)
  show ?case
  proof (cases "f key")
    case (Inl e)
    with Cons.prems show ?thesis by (simp add: asked_sound_panic)
  next
    case (Inr b)
    from asked_sound_answer[OF Cons.prems Inr] have a: "answered f (asked @ [key])" .
    with Inr Cons.IH[OF a] show ?thesis by (simp add: asked_sound_Inr)
  qed
qed

lemma RuleAllOf_scan_log_sound:
  "answered f asked \<Longrightarrow>
    asked_sound f (fst (RuleAllOf_scan_log f ks j sns ss idx asked))
      (snd (RuleAllOf_scan_log f ks j sns ss idx asked))"
proof (induction ks arbitrary: j sns ss idx asked)
  case Nil
  then show ?case by (simp add: asked_sound_Inr)
next
  case (Cons key rest)
  show ?case
  proof (cases "f key")
    case (Inl e)
    with Cons.prems show ?thesis by (simp add: asked_sound_panic)
  next
    case (Inr b)
    from asked_sound_answer[OF Cons.prems Inr] have a: "answered f (asked @ [key])" .
    with Inr Cons.IH[OF a] show ?thesis by (cases b) (simp_all add: asked_sound_Inr Let_def)
  qed
qed

lemma RuleAllOrNone_scan_log_sound:
  "answered f asked \<Longrightarrow>
    asked_sound f (fst (RuleAllOrNone_scan_log f ks j ss sns idx asked))
      (snd (RuleAllOrNone_scan_log f ks j ss sns idx asked))"
proof (induction ks arbitrary: j sns ss idx asked)
  case Nil
  then show ?case by (simp add: asked_sound_Inr)
next
  case (Cons key rest)
  show ?case
  proof (cases "f key")
    case (Inl e)
    with Cons.prems show ?thesis by (simp add: asked_sound_panic)
  next
    case (Inr b)
    from asked_sound_answer[OF Cons.prems Inr] have a: "answered f (asked @ [key])" .
    with Inr Cons.IH[OF a] show ?thesis by (cases b) (simp_all add: asked_sound_Inr)
  qed
qed

lemma RuleOneOf_scan_log_sound:
  "answered f asked \<Longrightarrow>
    asked_sound f (fst (RuleOneOf_scan_log f ks j ss idx asked))
      (snd (RuleOneOf_scan_log f ks j ss idx asked))"
proof (induction ks arbitrary: j ss idx asked)
  case Nil
  then show ?case by (simp add: asked_sound_Inr)
next
  case (Cons key rest)
  show ?case
  proof (cases "f key")
    case (Inl e)
    with Cons.prems show ?thesis by (simp add: asked_sound_panic)
  next
    case (Inr b)
    from asked_sound_answer[OF Cons.prems Inr] have a: "answered f (asked @ [key])" .
    with Inr Cons.IH[OF a] show ?thesis by (cases b) (simp_all add: asked_sound_Inr)
  qed
qed

lemma RuleAnyOf_scan_log_sound:
  "answered f asked \<Longrightarrow>
    asked_sound f (fst (RuleAnyOf_scan_log f ks asked)) (snd (RuleAnyOf_scan_log f ks asked))"
proof (induction ks arbitrary: asked)
  case Nil
  then show ?case by (simp add: asked_sound_Inr)
next
  case (Cons key rest)
  show ?case
  proof (cases "f key")
    case (Inl e)
    with Cons.prems show ?thesis by (simp add: asked_sound_panic)
  next
    case (Inr b)
    from asked_sound_answer[OF Cons.prems Inr] have a: "answered f (asked @ [key])" .
    with Inr Cons.IH[OF a] show ?thesis by (cases b) (simp_all add: asked_sound_Inr)
  qed
qed

lemma RuleAllOf_NthEx_log_sound:
  assumes "answered f asked"
  shows "asked_sound f (fst (RuleAllOf_NthEx_log keys f i asked))
    (snd (RuleAllOf_NthEx_log keys f i asked))"
proof (cases "RuleAllOf_scan_log f keys 0 False False 0 asked")
  case (Pair r asked')
  with RuleAllOf_scan_log_sound[OF assms, of keys 0 False False 0]
  have s: "asked_sound f r asked'" by simp
  show ?thesis
  proof (cases r)
    case (Inl e)
    with s Pair assms show ?thesis
      by (simp add: RuleAllOf_NthEx_log_def asked_sound_def)
  next
    case (Inr st)
    with s have "answered f asked'" by (simp add: asked_sound_Inr)
    with Inr Pair assms nth_checked_log_sound[OF this] show ?thesis
      by (cases st) (auto simp add: RuleAllOf_NthEx_log_def asked_sound_Inr)
  qed
qed

lemma RuleAllOrNone_NthEx_log_sound:
  assumes "answered f asked"
  shows "asked_sound f (fst (RuleAllOrNone_NthEx_log keys f i asked))
    (snd (RuleAllOrNone_NthEx_log keys f i asked))"
proof (cases "RuleAllOrNone_scan_log f keys 0 False False 0 asked")
  case (Pair r asked')
  with RuleAllOrNone_scan_log_sound[OF assms, of keys 0 False False 0]
  have s: "asked_sound f r asked'" by simp
  show ?thesis
  proof (cases r)
    case (Inl e)
    with s Pair assms show ?thesis
      by (simp add: RuleAllOrNone_NthEx_log_def asked_sound_def)
  next
    case (Inr st)
    with s have "answered f asked'" by (simp add: asked_sound_Inr)
    with Inr Pair assms nth_checked_log_sound[OF this] show ?thesis
      by (cases st) (auto simp add: RuleAllOrNone_NthEx_log_def asked_sound_Inr)
  qed
qed

lemma RuleOneOf_NthEx_log_sound:
  assumes "answered f asked"
  shows "asked_sound f (fst (RuleOneOf_NthEx_log keys f i asked))
    (snd (RuleOneOf_NthEx_log keys f i asked))"
proof (cases "RuleOneOf_scan_log f keys 0 False 0 asked")
  case (Pair r asked')
  with RuleOneOf_scan_log_sound[OF assms, of keys 0 False 0]
  have s: "asked_sound f r asked'" by simp
  show ?thesis
  proof (cases r)
    case (Inl e)
    with s Pair assms show ?thesis
      by (simp add: RuleOneOf_NthEx_log_def asked_sound_def)
  next
    case (Inr st)
    with s have "answered f asked'" by (simp add: asked_sound_Inr)
    with Inr Pair assms nth_checked_log_sound[OF this] show ?thesis
      by (cases st) (auto simp add: RuleOneOf_NthEx_log_def asked_sound_Inr)
  qed
qed

lemma RuleAnyOf_NthEx_log_sound:
  assumes "answered f asked"
  shows "asked_sound f (fst (RuleAnyOf_NthEx_log keys f i asked))
    (snd (RuleAnyOf_NthEx_log keys f i asked))"
proof (cases "RuleAnyOf_scan_log f keys asked")
  case (Pair r asked')
  with RuleAnyOf_scan_log_sound[OF assms, of keys]
  have s: "asked_sound f r asked'" by simp
  show ?thesis
  proof (cases r)
    case (Inl e)
    with s Pair assms show ?thesis
      by (simp add: RuleAnyOf_NthEx_log_def asked_sound_def)
  next
    case (Inr st)
    with s have "answered f asked'" by (simp add: asked_sound_Inr)
    with Inr Pair assms show ?thesis
      by (auto simp add: RuleAnyOf_NthEx_log_def asked_sound_Inr)
  qed
qed

lemma drain_log_sound_aux:
  assumes "drain_log g i k asked = Some y"
  shows "(\<forall>k l y'. answered f l \<longrightarrow> g k l = Some y' \<longrightarrow> asked_sound f (fst y') (snd y'))
    \<longrightarrow> answered f asked \<longrightarrow> asked_sound f (fst y) (snd y)"
proof (rule drain_log.raw_induct
    [where P = "\<lambda>g i k asked y.
       (\<forall>k l y'. answered f l \<longrightarrow> g k l = Some y' \<longrightarrow> asked_sound f (fst y') (snd y'))
        \<longrightarrow> answered f asked \<longrightarrow> asked_sound f (fst y) (snd y)",
      OF _ assms], goal_cases)
  case (1 loop g i k asked y)
  show ?case
  proof (intro impI)
    assume g: "\<forall>k l y'. answered f l \<longrightarrow> g k l = Some y' \<longrightarrow> asked_sound f (fst y') (snd y')"
      and a: "answered f asked"
    show "asked_sound f (fst y) (snd y)"
    proof (cases "g k asked")
      case None
      with 1(2) show ?thesis by simp
    next
      case (Some r)
      obtain res asked' where r: "r = (res, asked')" by (cases r) auto
      with Some g a have s: "asked_sound f res asked'" by fastforce
      show ?thesis
      proof (cases res)
        case (Inl e)
        with Some r 1(2) s show ?thesis by (auto simp add: asked_sound_def)
      next
        case (Inr found)
        with s have a': "answered f asked'" by (simp add: asked_sound_Inr)
        show ?thesis
        proof (cases found)
          case None
          with Inr Some r 1(2) a' show ?thesis by (auto simp add: asked_sound_Inr)
        next
          case (Some v)
          show ?thesis
          proof (cases "i = 0")
            case True
            with Some Inr \<open>g k asked = Some r\<close> r 1(2) a' show ?thesis
              by (auto simp add: asked_sound_Inr)
          next
            case False
            with Some Inr \<open>g k asked = Some r\<close> r 1(2)
            have "loop g (i - 1) (k + 1) asked' = Some y" by simp
            from 1(1)[OF this] g a' show ?thesis by blast
          qed
        qed
      qed
    qed
  qed
qed

lemma drain_log_sound:
  assumes "\<And>k l y'. answered f l \<Longrightarrow> g k l = Some y' \<Longrightarrow> asked_sound f (fst y') (snd y')"
    and "answered f asked" and "drain_log g i k asked = Some y"
  shows "asked_sound f (fst y) (snd y)"
  using drain_log_sound_aux[OF assms(3), of f] assms(1,2) by blast

lemma RuleDepends_finish_log_sound:
  "RuleDepends_finish_log r = Some y \<Longrightarrow> (\<And>y'. r = Some y' \<Longrightarrow> asked_sound f (fst y') (snd y'))
    \<Longrightarrow> asked_sound f (fst y) (snd y)"
  by (auto simp add: RuleDepends_finish_log_def asked_sound_def
      split: option.splits sum.splits prod.splits)

lemma NthEx_log_sound:
  "answered f asked \<Longrightarrow> NthEx_log r f i asked = Some y \<Longrightarrow> asked_sound f (fst y) (snd y)"
proof (induction r arbitrary: i asked y)
  case RuleAny
  then show ?case by (auto simp add: asked_sound_Inr)
next
  case (RuleAllOf keys)
  with RuleAllOf_NthEx_log_sound[of f asked keys i] show ?case by auto
next
  case (RuleAllOrNone keys)
  with RuleAllOrNone_NthEx_log_sound[of f asked keys i] show ?case by auto
next
  case (RuleOneOf keys)
  with RuleOneOf_NthEx_log_sound[of f asked keys i] show ?case by auto
next
  case (RuleAnyOf keys)
  with RuleAnyOf_NthEx_log_sound[of f asked keys i] show ?case by auto
next
  case (RuleDepends ifX thenY elseZ)
  show ?case
  proof (cases "i < 0")
    case True
    with RuleDepends.prems show ?thesis by (auto simp add: asked_sound_Inr)
  next
    case False
    show ?thesis
    proof (cases "NthEx_log ifX f 0 asked")
      case None
      with RuleDepends.prems False show ?thesis by simp
    next
      case (Some c)
      obtain res a where c: "c = (res, a)" by (cases c) auto
      from RuleDepends.IH(1)[OF RuleDepends.prems(1) Some] c
      have s: "asked_sound f res a" by simp
      show ?thesis
      proof (cases res)
        case (Inl e)
        with Some c s RuleDepends.prems False show ?thesis by auto
      next
        case (Inr found)
        with s have a: "answered f a" by (simp add: asked_sound_Inr)
        show ?thesis
        proof (cases found)
          case None
          with Inr Some c False RuleDepends.prems(2)
          have fin: "RuleDepends_finish_log (drain_log (\<lambda>k l. NthEx_log thenY f k l) i 0 a)
              = Some y" by simp
          show ?thesis
            by (rule RuleDepends_finish_log_sound[OF fin])
               (rule drain_log_sound[OF _ a], rule RuleDepends.IH(2))
        next
          case (Some v)
          with Inr \<open>NthEx_log ifX f 0 asked = Some c\<close> c False RuleDepends.prems(2)
          have fin: "RuleDepends_finish_log (drain_log (\<lambda>k l. NthEx_log elseZ f k l) i 0 a)
              = Some y" by simp
          show ?thesis
            by (rule RuleDepends_finish_log_sound[OF fin])
               (rule drain_log_sound[OF _ a], rule RuleDepends.IH(3))
        qed
      qed
    qed
  qed
next
  case (MultiRule rules)
  have "MultiRule_loop_log (map (\<lambda>rule. (\<lambda>j l. NthEx_log rule f j l)) rules) i asked = Some y"
    using MultiRule.prems(2) by simp
  with MultiRule.IH MultiRule.prems(1) show ?case
  proof (induction rules arbitrary: i asked)
    case Nil
    then show ?case by (auto simp add: asked_sound_Inr)
  next
    case (Cons r rs)
    show ?case
    proof (cases "drain_log (\<lambda>j l. NthEx_log r f j l) i 0 asked")
      case None
      with Cons.prems(3) show ?thesis by simp
    next
      case (Some d)
      obtain res a where d: "d = (res, a)" by (cases d) auto
      have "asked_sound f (fst d) (snd d)"
      proof (rule drain_log_sound[OF _ Cons.prems(2) Some])
        fix k l y'
        assume "answered f l" and "NthEx_log r f k l = Some y'"
        then show "asked_sound f (fst y') (snd y')" by (rule Cons.prems(1)[of r, simplified])
      qed
      with d have s: "asked_sound f res a" by simp
      show ?thesis
      proof (cases res)
        case (Inl e)
        with Some d s Cons.prems(3) show ?thesis by (auto simp add: asked_sound_def)
      next
        case (Inr found)
        with s have a: "answered f a" by (simp add: asked_sound_Inr)
        show ?thesis
        proof (cases found)
          case (Inl v)
          with Inr Some d Cons.prems(3) a show ?thesis by (auto simp add: asked_sound_Inr)
        next
          case inr: (Inr i')
          with Inr Some d Cons.prems(3)
          have rest: "MultiRule_loop_log (map (\<lambda>rule. (\<lambda>j l. NthEx_log rule f j l)) rs) i' a
              = Some y"
            by simp
          show ?thesis
          proof (rule Cons.IH[OF _ a rest])
            fix xa asked i y
            assume "xa \<in> set rs" and "answered f asked" and "NthEx_log xa f i asked = Some y"
            then show "asked_sound f (fst y) (snd y)"
              by (intro Cons.prems(1)[of xa asked i y]) simp_all
          qed
        qed
      qed
    qed
  qed
qed

text \<open>
  For an index that is not negative the enumeration returns or panics, whatever the
  inspector does: the loops over an inner enumeration count the index down.
\<close>

lemma drain_returns:
  "(\<And>k. k0 \<le> k \<Longrightarrow> \<exists>y. g k = Some y) \<Longrightarrow> 0 \<le> i \<Longrightarrow>
    \<exists>y. drain g i k0 = Some y \<and> (\<forall>i'. y = Inr (Inr i') \<longrightarrow> 0 \<le> i')"
proof (induction "nat i" arbitrary: i k0)
  case 0
  then have i: "i = 0" by simp
  from 0(2)[of k0] obtain y where y: "g k0 = Some y" by auto
  show ?case
  proof (cases y)
    case (Inl e)
    with y show ?thesis by (subst drain.simps) simp
  next
    case (Inr found)
    with y i show ?thesis by (cases found; subst drain.simps) simp_all
  qed
next
  case (Suc n)
  from Suc(3)[of k0] obtain y where y: "g k0 = Some y" by auto
  from Suc(2) have pos: "0 < i" and n: "n = nat (i - 1)" by simp_all
  show ?case
  proof (cases y)
    case (Inl e)
    with y show ?thesis by (subst drain.simps) simp
  next
    case (Inr found)
    show ?thesis
    proof (cases found)
      case None
      with Inr y Suc(4) show ?thesis by (subst drain.simps) simp
    next
      case (Some v)
      have "\<exists>y. drain g (i - 1) (k0 + 1) = Some y \<and> (\<forall>i'. y = Inr (Inr i') \<longrightarrow> 0 \<le> i')"
        by (rule Suc(1)[OF n]) (use Suc(3) pos in auto)
      with Some Inr y pos show ?thesis by (subst drain.simps) simp
    qed
  qed
qed

lemma NthEx_returns: "0 \<le> i \<Longrightarrow> \<exists>y. NthEx r f i = Some y"
proof (induction r arbitrary: i)
  case (RuleDepends ifX thenY elseZ)
  from RuleDepends.IH(1)[of 0] obtain c where c: "NthEx ifX f 0 = Some c" by auto
  have t: "\<exists>y. drain (\<lambda>k. NthEx thenY f k) i 0 = Some y"
    using drain_returns[of 0 "\<lambda>k. NthEx thenY f k" i] RuleDepends.IH(2) RuleDepends.prems
    by auto
  have e: "\<exists>y. drain (\<lambda>k. NthEx elseZ f k) i 0 = Some y"
    using drain_returns[of 0 "\<lambda>k. NthEx elseZ f k" i] RuleDepends.IH(3) RuleDepends.prems
    by auto
  from c t e RuleDepends.prems show ?case
    by (auto simp add: RuleDepends_finish_def split: sum.splits option.splits)
next
  case (MultiRule rules)
  have "\<exists>y. MultiRule_loop (map (\<lambda>rule. (\<lambda>j. NthEx rule f j)) rules) i = Some y"
    using MultiRule.IH MultiRule.prems
  proof (induction rules arbitrary: i)
    case Nil
    show ?case by simp
  next
    case (Cons r rs)
    from drain_returns[of 0 "\<lambda>j. NthEx r f j" i] Cons.prems
    obtain d where d: "drain (\<lambda>j. NthEx r f j) i 0 = Some d"
      and nonneg: "\<And>i'. d = Inr (Inr i') \<Longrightarrow> 0 \<le> i'"
      by auto
    show ?case
    proof (cases d)
      case (Inl e)
      with d show ?thesis by simp
    next
      case (Inr found)
      show ?thesis
      proof (cases found)
        case (Inl v)
        with Inr d show ?thesis by simp
      next
        case inr: (Inr i')
        with Inr nonneg have "0 \<le> i'" by simp
        from Cons.IH[OF _ this] Cons.prems(1) obtain y where
          "MultiRule_loop (map (\<lambda>rule. (\<lambda>j. NthEx rule f j)) rs) i' = Some y" by auto
        with inr Inr d show ?thesis by simp
      qed
    qed
  qed
  then show ?case by simp
qed simp_all

lemma NthEx_log_returns: "0 \<le> i \<Longrightarrow> \<exists>r asked'. NthEx_log rule f i asked = Some (r, asked')"
proof -
  assume "0 \<le> i"
  from NthEx_returns[OF this] obtain y where "NthEx rule f i = Some y" by blast
  with NthEx_log_fst[of rule f i asked] show ?thesis by (cases "NthEx_log rule f i asked") auto
qed

lemma asked_panics:
  assumes "asked_sound f r asked" and "key \<in> set asked" and "f key = Inl p"
  shows "r = Inl p"
proof (cases r)
  case (Inr v)
  with assms show ?thesis by (auto simp add: asked_sound_def answered_def list_all_iff)
next
  case (Inl q)
  with assms(1) have ne: "asked \<noteq> []" and l: "f (last asked) = Inl q"
    and b: "answered f (butlast asked)"
    by (simp_all add: asked_sound_def)
  from b assms(3) have "key \<notin> set (butlast asked)" by (auto simp add: answered_def list_all_iff)
  moreover from assms(2) have "key \<in> set (butlast asked @ [last asked])"
    by (simp only: append_butlast_last_id[OF ne])
  ultimately have "key = last asked" by simp
  with l assms(3) Inl show ?thesis by simp
qed

lemma panic_was_asked:
  assumes "asked_sound f (Inl p) asked"
  shows "\<exists>key \<in> set asked. f key = Inl p"
  using assms by (auto simp add: asked_sound_def intro: bexI[of _ "last asked"])

lemma Route_FindFlag_panic: "Route_FindFlag route k = Inl p \<Longrightarrow> p = PanicNilDereference"
  by (cases "route = []")
     (auto simp add: Route_FindFlag_def Route_FindFlag_log_def split: option.splits)

lemma Route_CheckFlagValueChanged_panic_key:
  assumes "Route_CheckFlagValueChanged route s k = Inl (PanicFlagUndefined key)"
  shows "k = key"
proof (cases "Route_FindFlag route k")
  case (Inl p)
  with Route_FindFlag_panic[OF Inl] assms show ?thesis
    by (simp add: Route_CheckFlagValueChanged_def)
next
  case (Inr found)
  with assms show ?thesis by (cases found) (simp_all add: Route_CheckFlagValueChanged_def)
qed

text \<open>
  Claim C10, as amended. \<^verbatim>\<open>Route.CheckFlagValueChanged\<close> panics with
  \<^verbatim>\<open>ErrFlagUndefined\<close> on every name that \<^verbatim>\<open>Route.FindFlag\<close> does not resolve. The rule
  check of \<^verbatim>\<open>Cmd.Exec\<close> (\<^verbatim>\<open>NthEx\<close> at index 0) returns or panics, and it panics with
  \<^verbatim>\<open>ErrFlagUndefined\<close> of such a name, instead of returning an error, exactly when the
  evaluation of the rule asks the inspector for that name, be it the first key asked or
  a later one. The first key that the rule asks for by its form is always asked.
\<close>

theorem Exec_check_rule_panics_on_unresolved_key:
  assumes "Route_FindFlag route key = Inr None"
  shows "Route_CheckFlagValueChanged route s key = Inl (PanicFlagUndefined key)
    \<and> (FlagRule c = Some rule \<longrightarrow>
         (\<exists>r asked.
            NthEx_log rule (Route_CheckFlagValueChanged route s) 0 [] = Some (r, asked)
            \<and> NthEx rule (Route_CheckFlagValueChanged route s) 0 = Some r
            \<and> (key \<in> set asked) =
                (Exec_check_rule route c s = Some (Inl (PanicFlagUndefined key))))
         \<and> (first_consulted_key rule = Some key \<longrightarrow>
              Exec_check_rule route c s = Some (Inl (PanicFlagUndefined key))))"
proof -
  let ?f = "Route_CheckFlagValueChanged route s"
  have p: "?f key = Inl (PanicFlagUndefined key)"
    using assms by (simp add: Route_CheckFlagValueChanged_def)
  have first: "Exec_check_rule route c s = Some (Inl (PanicFlagUndefined key))"
    if "FlagRule c = Some rule" and "first_consulted_key rule = Some key"
    using NthEx_first_consulted_key[of rule ?f] that p by (simp add: Exec_check_rule_def)
  have run: "\<exists>r asked.
      NthEx_log rule ?f 0 [] = Some (r, asked) \<and> NthEx rule ?f 0 = Some r
      \<and> (key \<in> set asked) = (Exec_check_rule route c s = Some (Inl (PanicFlagUndefined key)))"
    if c: "FlagRule c = Some rule"
  proof -
    from NthEx_log_returns[of 0 rule ?f "[]"] obtain r asked where
      l: "NthEx_log rule ?f 0 [] = Some (r, asked)" by auto
    with NthEx_log_fst[of rule ?f 0 "[]"] have n: "NthEx rule ?f 0 = Some r" by simp
    have "answered ?f []" by (simp add: answered_def)
    from NthEx_log_sound[OF this l] have s: "asked_sound ?f r asked" by simp
    have e: "(Exec_check_rule route c s = Some (Inl (PanicFlagUndefined key)))
        = (r = Inl (PanicFlagUndefined key))"
      using c n by (auto simp add: Exec_check_rule_def split: sum.splits option.splits)
    have "(key \<in> set asked) = (r = Inl (PanicFlagUndefined key))"
    proof
      assume "key \<in> set asked"
      from asked_panics[OF s this p] show "r = Inl (PanicFlagUndefined key)" .
    next
      assume "r = Inl (PanicFlagUndefined key)"
      with s panic_was_asked[of ?f "PanicFlagUndefined key" asked]
      obtain k where k: "k \<in> set asked" and "?f k = Inl (PanicFlagUndefined key)" by auto
      from Route_CheckFlagValueChanged_panic_key[OF this(2)] k show "key \<in> set asked" by simp
    qed
    with e have "(key \<in> set asked)
        = (Exec_check_rule route c s = Some (Inl (PanicFlagUndefined key)))" by simp
    with l n show ?thesis by (intro exI conjI)
  qed
  show ?thesis
  proof (intro conjI impI)
    show "Route_CheckFlagValueChanged route s key = Inl (PanicFlagUndefined key)" by (rule p)
  next
    assume "FlagRule c = Some rule"
    then show "\<exists>r asked.
      NthEx_log rule ?f 0 [] = Some (r, asked) \<and> NthEx rule ?f 0 = Some r
      \<and> (key \<in> set asked) = (Exec_check_rule route c s = Some (Inl (PanicFlagUndefined key)))"
      by (rule run)
  next
    assume "FlagRule c = Some rule" and "first_consulted_key rule = Some key"
    then show "Exec_check_rule route c s = Some (Inl (PanicFlagUndefined key))" by (rule first)
  qed
qed

subsection \<open>Fixtures\<close>

text \<open>
  A flag over the empty program state with fixed state bits that accepts every value,
  and a finder given by the names it knows.
\<close>

definition static_flag :: "32 word \<Rightarrow> unit Flag" where
  "static_flag st =
     \<lparr>ImplyValue = None, Decode = (\<lambda>opts name arg set s. Inr (None, s)),
      AsCompAction = None, Extra = None, State = (\<lambda>s. st), HasValue = (\<lambda>s. False),
      PrintValue = (\<lambda>s. Inr ''''), Usage = ''''\<rparr>"

definition finder_of :: "(string \<times> 's Flag) list \<Rightarrow> 's Indexer" where
  "finder_of known = \<lparr>FindFlag = map_of known, NthFlag = None\<rparr>"

definition example_root :: "unit Cmd" where
  "example_root =
     Cmd ''root'' '''' (Some (finder_of [(''v'', static_flag 0)])) None None None [] 0"

definition example_sub :: "unit Cmd" where
  "example_sub =
     Cmd ''sub'' '''' None (Some (finder_of [(''x'', static_flag 1)])) None None [] 0"

theorem Route_FindFlag_searches_in_order_witness:
  "[example_root, example_sub] \<noteq> []
   \<and> Route_FindFlag_log [example_root, example_sub] ''v'' =
       Inr (Some (static_flag 0), [LocalFlagsOf 1, FlagsOf 0])"
  using Route_FindFlag_searches_in_order[of "[example_root, example_sub]" "''v''"]
  by (simp add: search_order_def finder_at_def example_root_def example_sub_def finder_of_def)

definition example_guarded :: "unit Cmd" where
  "example_guarded =
     Cmd ''root'' '''' None None
       (Some (RuleDepends RuleAny RuleAny (RuleAllOf [''zz'']))) None [] 0"

definition example_partial :: "unit Cmd" where
  "example_partial =
     Cmd ''root'' ''''
       (Some (finder_of [(''a'', static_flag FlagStateValueChanged), (''b'', static_flag 0)]))
       None (Some (RuleAllOf [''b'', ''a'', ''zz''])) None [] 0"

definition example_unresolved :: "unit Cmd" where
  "example_unresolved =
     Cmd ''root'' '''' (Some (finder_of [(''a'', static_flag 0)])) None
       (Some (RuleAllOf [''zz'', ''a''])) None [] 0"

definition example_later :: "unit Cmd" where
  "example_later =
     Cmd ''root'' '''' (Some (finder_of [(''a'', static_flag 0)])) None
       (Some (RuleAllOf [''a'', ''zz''])) None [] 0"

text \<open>
  Claim C10 as stated fails: a rule can mention an unresolvable key and still be
  evaluated without a panic. The else-branch of a dependency whose condition holds is
  never evaluated, and \<^verbatim>\<open>RuleAllOf.NthEx\<close> returns its first violation before it reaches
  a key behind the first unchanged and the first changed key.
\<close>

theorem Exec_check_rule_unresolved_key_counterexample:
  "Contains (RuleDepends RuleAny RuleAny (RuleAllOf [''zz''])) ''zz''
   \<and> Route_FindFlag [example_guarded] ''zz'' = Inr None
   \<and> Exec_check_rule [example_guarded] example_guarded () = Some (Inr None)
   \<and> Contains (RuleAllOf [''b'', ''a'', ''zz'']) ''zz''
   \<and> Route_FindFlag [example_partial] ''zz'' = Inr None
   \<and> Exec_check_rule [example_partial] example_partial () =
       Some (Inr (Some (FlagViolation ''b'' ViolationCodePartialAllOf)))"
  by (simp add: example_guarded_def example_partial_def Exec_check_rule_def
      Route_FindFlag_def Route_FindFlag_log_def Route_CheckFlagValueChanged_def
      RuleAllOf_NthEx_def finder_of_def static_flag_def drain_nothing RuleDepends_finish_def
      ValueChanged_def FlagStateValueChanged_def)

theorem Exec_check_rule_panics_on_unresolved_key_witness:
  "Route_FindFlag [example_later] ''zz'' = Inr None
   \<and> FlagRule example_later = Some (RuleAllOf [''a'', ''zz''])
   \<and> first_consulted_key (RuleAllOf [''a'', ''zz'']) = Some ''a''
   \<and> NthEx_log (RuleAllOf [''a'', ''zz'']) (Route_CheckFlagValueChanged [example_later] ()) 0 []
       = Some (Inl (PanicFlagUndefined ''zz''), [''a'', ''zz''])
   \<and> Exec_check_rule [example_later] example_later () = Some (Inl (PanicFlagUndefined ''zz''))
   \<and> Route_FindFlag [example_unresolved] ''zz'' = Inr None
   \<and> first_consulted_key (RuleAllOf [''zz'', ''a'']) = Some ''zz''
   \<and> Exec_check_rule [example_unresolved] example_unresolved () =
       Some (Inl (PanicFlagUndefined ''zz''))"
proof -
  have h: "Route_FindFlag [example_later] ''zz'' = Inr None"
    by (simp add: example_later_def Route_FindFlag_def Route_FindFlag_log_def finder_of_def)
  have r: "FlagRule example_later = Some (RuleAllOf [''a'', ''zz''])"
    by (simp add: example_later_def)
  have a: "Route_CheckFlagValueChanged [example_later] () ''a'' = Inr False"
    by (simp add: Route_CheckFlagValueChanged_def example_later_def Route_FindFlag_def
        Route_FindFlag_log_def finder_of_def static_flag_def ValueChanged_def
        FlagStateValueChanged_def)
  have z: "Route_CheckFlagValueChanged [example_later] () ''zz'' = Inl (PanicFlagUndefined ''zz'')"
    using h by (simp add: Route_CheckFlagValueChanged_def)
  have l: "NthEx_log (RuleAllOf [''a'', ''zz'']) (Route_CheckFlagValueChanged [example_later] ()) 0 []
      = Some (Inl (PanicFlagUndefined ''zz''), [''a'', ''zz''])"
    by (simp add: RuleAllOf_NthEx_log_def a z)
  have h': "Route_FindFlag [example_unresolved] ''zz'' = Inr None"
    by (simp add: example_unresolved_def Route_FindFlag_def Route_FindFlag_log_def finder_of_def)
  have r': "FlagRule example_unresolved = Some (RuleAllOf [''zz'', ''a''])"
    by (simp add: example_unresolved_def)
  from Exec_check_rule_panics_on_unresolved_key
         [OF h, of "()" example_later "RuleAllOf [''a'', ''zz'']"] r
  obtain res asked where
    run: "NthEx_log (RuleAllOf [''a'', ''zz'']) (Route_CheckFlagValueChanged [example_later] ()) 0 []
      = Some (res, asked)"
    and iff: "(''zz'' \<in> set asked) =
      (Exec_check_rule [example_later] example_later () = Some (Inl (PanicFlagUndefined ''zz'')))"
    by blast
  from run l have "asked = [''a'', ''zz'']" by simp
  with iff have e:
    "Exec_check_rule [example_later] example_later () = Some (Inl (PanicFlagUndefined ''zz''))"
    by simp
  from Exec_check_rule_panics_on_unresolved_key
         [OF h', of "()" example_unresolved "RuleAllOf [''zz'', ''a'']"] r'
  have e': "Exec_check_rule [example_unresolved] example_unresolved () =
      Some (Inl (PanicFlagUndefined ''zz''))"
    by simp
  from h r l e h' e' show ?thesis by simp
qed

section \<open>The argument parser (parse.go)\<close>

subsection \<open>Standard library helpers\<close>

text \<open>
  Modelled from the Go standard library: \<^verbatim>\<open>strings.Cut(s, sep)\<close> slices \<open>s\<close> around the
  first instance of \<open>sep\<close> and says whether \<open>sep\<close> was found; without it the result is
  \<open>(s, "", false)\<close>.
\<close>

fun Cut :: "string \<Rightarrow> string \<Rightarrow> string \<times> string \<times> bool" where
  "Cut [] sep = ([], [], sep = [])"
| "Cut (c # cs) sep =
    (if take (length sep) (c # cs) = sep then ([], drop (length sep) (c # cs), True)
     else case Cut cs sep of (before, after, found) \<Rightarrow> (c # before, after, found))"

text \<open>Modelled from the Go standard library: \<^verbatim>\<open>strings.HasPrefix\<close>.\<close>

definition HasPrefix :: "string \<Rightarrow> string \<Rightarrow> bool" where
  "HasPrefix s pre = (take (length pre) s = pre)"

text \<open>
  Modelled from the Go standard library: the width in bytes that
  \<^verbatim>\<open>utf8.DecodeRuneInString\<close> reports for the first rune of a string: \<open>0\<close> for the empty
  string, \<open>1\<close> for an ASCII byte and for an invalid encoding, else the length of the
  well-formed UTF-8 sequence.
\<close>

definition continuation :: "char \<Rightarrow> bool" where
  "continuation c = (0x80 \<le> (of_char c :: nat) \<and> (of_char c :: nat) \<le> 0xBF)"

definition DecodeRuneInString_width :: "string \<Rightarrow> nat" where
  "DecodeRuneInString_width s =
    (case s of
       [] \<Rightarrow> 0
     | s0 # t \<Rightarrow>
        (let b0 = (of_char s0 :: nat);
             lo = (if b0 = 0xE0 then 0xA0 else if b0 = 0xF0 then 0x90 else 0x80);
             hi = (if b0 = 0xED then 0x9F else if b0 = 0xF4 then 0x8F else 0xBF);
             sz = (if b0 < 0xC2 then 1 else if b0 \<le> 0xDF then 2 else if b0 \<le> 0xEF then 3
                   else if b0 \<le> 0xF4 then 4 else 1)
         in if sz = 1 then 1
            else if length s < sz then 1
            else if (of_char (s ! 1) :: nat) < lo \<or> hi < (of_char (s ! 1) :: nat) then 1
            else if sz \<le> 2 then 2
            else if \<not> continuation (s ! 2) then 1
            else if sz \<le> 3 then 3
            else if \<not> continuation (s ! 3) then 1
            else 4))"

subsection \<open>Help arguments\<close>

text \<open>\<^verbatim>\<open>ParseOptions.IsHelpArg\<close>, for a receiver that may be nil.\<close>

definition IsHelpArg :: "ParseOptions option \<Rightarrow> string \<Rightarrow> bool" where
  "IsHelpArg c x =
    (case (case c of None \<Rightarrow> None | Some opts \<Rightarrow> HelpArgs opts) of
       None \<Rightarrow> x = ''--help'' \<or> x = ''-h'' \<or> x = ''help''
     | Some helpArgs \<Rightarrow> x \<in> set helpArgs)"

subsection \<open>Long flags\<close>

text \<open>
  The label \<^verbatim>\<open>TryImplied\<close> of \<^verbatim>\<open>parseLongFlag\<close> and what follows it. \<open>reason\<close> is the
  value of \<^verbatim>\<open>err\<close> on arrival: the error of the validating \<^verbatim>\<open>Decode\<close>, if that ran.
\<close>

definition parseLongFlag_TryImplied :: "'s Flag \<Rightarrow> ParseOptions option \<Rightarrow> string list \<Rightarrow> int
    \<Rightarrow> bool \<Rightarrow> string \<Rightarrow> error option \<Rightarrow> 's \<Rightarrow> (bool \<times> error option \<times> 's) res" where
  "parseLongFlag_TryImplied f opts args i setv name reason s =
    (case ImplyValue f of
       Some v \<Rightarrow>
         (case Decode f opts name v setv s of
            Inl p \<Rightarrow> Inl p
          | Inr (Some e, s') \<Rightarrow> Inr (False, Some (ErrFlagValueInvalid name v i (- 1) (Some e)), s')
          | Inr (None, s') \<Rightarrow> Inr (False, None, s'))
     | None \<Rightarrow>
         if i = int (length args) - 1 \<or> args ! nat (i + 1) = ''--''
         then Inr (False, Some (ErrFlagValueMissing name i), s)
         else Inr (False, Some (ErrFlagValueInvalid name (args ! nat (i + 1)) i (i + 1) reason), s))"

text \<open>
  \<^verbatim>\<open>parseLongFlag\<close>; \<open>args[i]\<close> is the long flag with its dash prefix. The argument \<open>setv\<close> is
  the source's \<^verbatim>\<open>set\<close>. The result is \<open>(shiftNext, err)\<close> and the new program state, or a panic. The index guards are the
  run-time checks of Go's indexing and slicing.
\<close>

definition parseLongFlag :: "(string \<Rightarrow> 's Flag option) \<Rightarrow> ParseOptions option \<Rightarrow> string list
    \<Rightarrow> int \<Rightarrow> bool \<Rightarrow> 's \<Rightarrow> (bool \<times> error option \<times> 's) res" where
  "parseLongFlag flags opts args i setv s =
    (if i < 0 \<or> int (length args) \<le> i \<or> length (args ! nat i) < 2 then Inl PanicIndexOutOfRange
     else case Cut (drop 2 (args ! nat i)) ''='' of (name, v, hasValue) \<Rightarrow>
       if length name = 0 then Inl (PanicMessage ''unexpected empty arg name'')
       else case flags name of
         None \<Rightarrow> Inr (False, Some (ErrFlagUndefined name i), s)
       | Some f \<Rightarrow>
           if hasValue then
             (case Decode f opts name v setv s of
                Inl p \<Rightarrow> Inl p
              | Inr (Some e, s') \<Rightarrow> Inr (False, Some (ErrFlagValueInvalid name v i i None), s')
              | Inr (None, s') \<Rightarrow> Inr (False, None, s'))
           else if i = int (length args) - 1 \<or> args ! nat (i + 1) = ''--''
           then parseLongFlag_TryImplied f opts args i setv name None s
           else
             (case Decode f opts name (args ! nat (i + 1)) False s of
                Inl p \<Rightarrow> Inl p
              | Inr (None, s') \<Rightarrow>
                  if HasPrefix (args ! nat (i + 1)) ''-'' \<and> ImplyValue f \<noteq> None
                  then Inr (True, Some (ErrAmbiguousArgs name (args ! nat (i + 1)) i), s')
                  else if setv then
                    (case Decode f opts name (args ! nat (i + 1)) True s' of
                       Inl p \<Rightarrow> Inl p
                     | Inr (e, s'') \<Rightarrow> Inr (True, e, s''))
                  else Inr (True, None, s')
              | Inr (Some e, s') \<Rightarrow>
                  parseLongFlag_TryImplied f opts args i setv name (Some e) s'))"

subsection \<open>Shorthand clusters\<close>

text \<open>The last shorthand of a cluster: the block under \<^verbatim>\<open>if offset == sz\<close>.\<close>

definition parseShortFlags_last :: "'s Flag \<Rightarrow> ParseOptions option \<Rightarrow> string list \<Rightarrow> int
    \<Rightarrow> bool \<Rightarrow> string \<Rightarrow> string \<Rightarrow> bool \<Rightarrow> 's \<Rightarrow> (bool \<times> error option \<times> 's) res" where
  "parseShortFlags_last f opts args i setv name v hasValue s =
    (let TryImplied = (\<lambda>s1.
           case ImplyValue f of
             Some iv \<Rightarrow>
               (case Decode f opts name iv setv s1 of
                  Inl p \<Rightarrow> Inl p
                | Inr (Some e, s') \<Rightarrow>
                    Inr (False, Some (ErrFlagValueInvalid name iv i (- 1) (Some e)), s')
                | Inr (None, s') \<Rightarrow> Inr (False, None, s'))
           | None \<Rightarrow>
               if i = int (length args) - 1 \<or> args ! nat (i + 1) = ''--''
               then Inr (False, Some (ErrFlagValueMissing name i), s1)
               else Inr (False, Some (ErrFlagValueInvalid name (args ! nat (i + 1)) i (i + 1) None), s1))
     in
     if hasValue then
       (case Decode f opts name v setv s of
          Inl p \<Rightarrow> Inl p
        | Inr (Some e, s') \<Rightarrow> Inr (False, Some (ErrFlagValueInvalid name v i i (Some e)), s')
        | Inr (None, s') \<Rightarrow> Inr (False, None, s'))
     else if i = int (length args) - 1 \<or> args ! nat (i + 1) = ''--'' then TryImplied s
     else
       (case Decode f opts name (args ! nat (i + 1)) False s of
          Inl p \<Rightarrow> Inl p
        | Inr (None, s') \<Rightarrow>
            if HasPrefix (args ! nat (i + 1)) ''-'' \<and> ImplyValue f \<noteq> None
            then Inr (True, Some (ErrAmbiguousArgs name (args ! nat (i + 1)) i), s')
            else if setv then
              (case Decode f opts name (args ! nat (i + 1)) True s' of
                 Inl p \<Rightarrow> Inl p
               | Inr (Some e, s'') \<Rightarrow>
                   Inr (True, Some (ErrFlagValueInvalid name (args ! nat (i + 1)) i (i + 1) None), s'')
               | Inr (None, s'') \<Rightarrow> Inr (True, None, s''))
            else Inr (True, None, s')
        | Inr (Some e, s') \<Rightarrow> TryImplied s'))"

lemma DecodeRuneInString_width_pos: "s \<noteq> [] \<Longrightarrow> 0 < DecodeRuneInString_width s"
  by (cases s) (simp_all add: DecodeRuneInString_width_def Let_def)

text \<open>
  The loop of \<^verbatim>\<open>parseShortFlags\<close> over the cluster \<open>cluster\<close> (the text before \<open>=\<close>);
  \<open>rest\<close> is \<^verbatim>\<open>s[offset:]\<close>.
\<close>

function parseShortFlags_loop :: "(string \<Rightarrow> 's Flag option) \<Rightarrow> ParseOptions option \<Rightarrow> string list
    \<Rightarrow> int \<Rightarrow> bool \<Rightarrow> string \<Rightarrow> string \<Rightarrow> bool \<Rightarrow> string \<Rightarrow> 's
    \<Rightarrow> (bool \<times> error option \<times> 's) res" where
  "parseShortFlags_loop flags opts args i setv cluster v hasValue rest s =
    (if rest = [] then Inr (False, None, s)
     else
       let width = DecodeRuneInString_width rest;
           name = take width rest;
           rest' = drop width rest
       in case flags name of
         None \<Rightarrow> Inr (False, Some (ErrFlagUndefined name i), s)
       | Some f \<Rightarrow>
           if rest' = [] then parseShortFlags_last f opts args i setv name v hasValue s
           else case ImplyValue f of
             Some impliedValue \<Rightarrow>
               (case Decode f opts name impliedValue setv s of
                  Inl p \<Rightarrow> Inl p
                | Inr (Some e, s') \<Rightarrow> Inr (False, Some e, s')
                | Inr (None, s') \<Rightarrow>
                    parseShortFlags_loop flags opts args i setv cluster v hasValue rest' s')
           | None \<Rightarrow>
               if hasValue
               then Inr (False, Some (ErrShorthandOfExplicitFlagInMiddle name cluster v), s)
               else
                 (case Decode f opts name rest' setv s of
                    Inl p \<Rightarrow> Inl p
                  | Inr (Some e, s') \<Rightarrow>
                      Inr (False, Some (ErrFlagValueInvalid '''' rest' i i (Some e)), s')
                  | Inr (None, s') \<Rightarrow> Inr (False, None, s')))"
  by pat_completeness auto
termination
proof (relation "measure (\<lambda>(flags, opts, args, i, setv, cluster, v, hasValue, rest, s). length rest)")
  show "wf (measure (\<lambda>(flags, opts, args, i, setv, cluster, v, hasValue, rest, s). length rest))"
    by simp
next
  fix flags :: "string \<Rightarrow> 's Flag option" and opts :: "ParseOptions option"
    and args :: "string list" and i :: int and setv :: bool and cluster v :: string
    and hasValue :: bool and rest :: string and s s' :: 's and width :: nat
    and name rest' :: string
  assume "rest \<noteq> []" and "width = DecodeRuneInString_width rest" and "rest' = drop width rest"
  then have "length rest' < length rest"
    using DecodeRuneInString_width_pos[of rest] by simp
  then show "((flags, opts, args, i, setv, cluster, v, hasValue, rest', s'),
              (flags, opts, args, i, setv, cluster, v, hasValue, rest, s))
      \<in> measure (\<lambda>(flags, opts, args, i, setv, cluster, v, hasValue, rest, s). length rest)"
    by simp
qed

text \<open>\<^verbatim>\<open>parseShortFlags\<close>; \<open>args[i]\<close> is the shorthand cluster with its hyphen prefix.\<close>

definition parseShortFlags :: "(string \<Rightarrow> 's Flag option) \<Rightarrow> ParseOptions option \<Rightarrow> string list
    \<Rightarrow> int \<Rightarrow> bool \<Rightarrow> 's \<Rightarrow> (bool \<times> error option \<times> 's) res" where
  "parseShortFlags flags opts args i setv s =
    (if i < 0 \<or> int (length args) \<le> i \<or> length (args ! nat i) < 1 then Inl PanicIndexOutOfRange
     else case Cut (drop 1 (args ! nat i)) ''='' of (cluster, v, hasValue) \<Rightarrow>
       parseShortFlags_loop flags opts args i setv cluster v hasValue cluster s)"
subsection \<open>The parsing loop\<close>

text \<open>The results of \<^verbatim>\<open>ParseFlagsLowLevel\<close>, with the program state it leaves.\<close>

record 's Parsed =
  nParsed :: int
  posDash :: int
  foundPosArg :: bool
  posArgs :: "string list"
  helpArgAt :: int
  err :: "error option"
  final :: 's

text \<open>
  The loop of \<^verbatim>\<open>ParseFlagsLowLevel\<close> from index \<open>i\<close>, with the current values of
  \<^verbatim>\<open>foundPosArg\<close> and \<^verbatim>\<open>posArgs\<close>. Reading \<open>args[i]\<close> at a negative index panics.
\<close>

function ParseFlagsLowLevel_loop :: "string list \<Rightarrow> (string \<Rightarrow> 's Flag option)
    \<Rightarrow> ParseOptions option \<Rightarrow> int \<Rightarrow> bool \<Rightarrow> bool \<Rightarrow> bool \<Rightarrow> int \<Rightarrow> bool \<Rightarrow> string list \<Rightarrow> 's
    \<Rightarrow> 's Parsed res" where
  "ParseFlagsLowLevel_loop args flags opts offset appendPosArgs stopAtFirstPosArg setFlagValue
      i found pos s =
    (if \<not> i < int (length args) then
       Inr \<lparr>nParsed = i - offset, posDash = - 1, foundPosArg = found, posArgs = pos,
            helpArgAt = - 1, err = None, final = s\<rparr>
     else if i < 0 then Inl PanicIndexOutOfRange
     else
       let arg = args ! nat i; szArg = length arg in
       if szArg = 0 \<or> arg ! 0 \<noteq> CHR ''-'' \<or> szArg = 1 then
         (let pos' = (if appendPosArgs then pos @ [arg] else pos);
              isHelpArg = IsHelpArg opts arg
          in if isHelpArg \<or> stopAtFirstPosArg then
               Inr \<lparr>nParsed = i - offset, posDash = - 1, foundPosArg = True, posArgs = pos',
                    helpArgAt = (if isHelpArg then i else - 1), err = None, final = s\<rparr>
             else ParseFlagsLowLevel_loop args flags opts offset appendPosArgs stopAtFirstPosArg
                    setFlagValue (i + 1) True pos' s)
       else if arg ! 1 = CHR ''-'' \<and> szArg = 2 then
         Inr \<lparr>nParsed = int (length args), posDash = i, foundPosArg = found, posArgs = pos,
              helpArgAt = - 1, err = None, final = s\<rparr>
       else
         let parsed =
               (if arg ! 1 = CHR ''-'' then parseLongFlag flags opts args i setFlagValue s
                else parseShortFlags flags opts args i setFlagValue s)
         in
         if IsHelpArg opts arg then
           (if flags (drop (if arg ! 1 = CHR ''-'' then 2 else 1) arg) = None then
              Inr \<lparr>nParsed = i + 1 - offset, posDash = - 1, foundPosArg = found, posArgs = pos,
                   helpArgAt = i, err = None, final = s\<rparr>
            else case parsed of
              Inl p \<Rightarrow> Inl p
            | Inr (shiftNext, e, s') \<Rightarrow>
                Inr \<lparr>nParsed = i + 1 - offset, posDash = - 1, foundPosArg = found, posArgs = pos,
                     helpArgAt = i, err = e, final = s'\<rparr>)
         else case parsed of
           Inl p \<Rightarrow> Inl p
         | Inr (shiftNext, e, s') \<Rightarrow>
             (case e of
                None \<Rightarrow>
                  ParseFlagsLowLevel_loop args flags opts offset appendPosArgs stopAtFirstPosArg
                    setFlagValue (if shiftNext then i + 2 else i + 1) found pos s'
              | Some parseErr \<Rightarrow>
                  (case (case opts of None \<Rightarrow> None | Some popts \<Rightarrow> HandleParseError popts) of
                     None \<Rightarrow>
                       Inr \<lparr>nParsed = i + 1 - offset, posDash = - 1, foundPosArg = found,
                            posArgs = pos, helpArgAt = - 1, err = Some parseErr, final = s'\<rparr>
                   | Some handle \<Rightarrow>
                       (case handle args i parseErr of
                          Some e' \<Rightarrow>
                            Inr \<lparr>nParsed = i + 1 - offset, posDash = - 1, foundPosArg = found,
                                 posArgs = pos, helpArgAt = - 1, err = Some e', final = s'\<rparr>
                        | None \<Rightarrow>
                            ParseFlagsLowLevel_loop args flags opts offset appendPosArgs
                              stopAtFirstPosArg setFlagValue (if shiftNext then i + 2 else i + 1)
                              found pos s'))))"
  by pat_completeness auto
termination
  by (relation "measure (\<lambda>(args, flags, opts, offset, appendPosArgs, stopAtFirstPosArg,
        setFlagValue, i, found, pos, s). nat (int (length args) - i))") auto

text \<open>\<^verbatim>\<open>ParseFlagsLowLevel\<close>.\<close>

definition ParseFlagsLowLevel :: "string list \<Rightarrow> (string \<Rightarrow> 's Flag option)
    \<Rightarrow> ParseOptions option \<Rightarrow> int \<Rightarrow> bool \<Rightarrow> bool \<Rightarrow> bool \<Rightarrow> string list \<Rightarrow> 's \<Rightarrow> 's Parsed res" where
  "ParseFlagsLowLevel args flags opts offset appendPosArgs stopAtFirstPosArg setFlagValue
      posArgsBuf s =
     ParseFlagsLowLevel_loop args flags opts offset appendPosArgs stopAtFirstPosArg setFlagValue
       offset False posArgsBuf s"

text \<open>
  \<^verbatim>\<open>ParseFlags\<close>: the positional arguments, the arguments after the dash, the error and
  the program state.
\<close>

definition ParseFlags :: "string list \<Rightarrow> (string \<Rightarrow> 's Flag option) \<Rightarrow> ParseOptions option \<Rightarrow> 's
    \<Rightarrow> (string list \<times> string list \<times> error option \<times> 's) res" where
  "ParseFlags args flags opts s =
    (case ParseFlagsLowLevel args flags opts 0 True False True
            (case opts of None \<Rightarrow> [] | Some popts \<Rightarrow> PosArgsBuf popts) s of
       Inl p \<Rightarrow> Inl p
     | Inr r \<Rightarrow>
         Inr (posArgs r,
              (if posDash r \<ge> 0 then drop (nat (posDash r + 1)) args else []),
              err r, final r))"

text \<open>
  Claim C1 fails on the code. An argument \<open>--=value\<close> has an empty flag name before
  \<open>=\<close>: \<^verbatim>\<open>ParseFlagsLowLevel\<close> checks the size of the argument only and hands it to
  \<^verbatim>\<open>parseLongFlag\<close>, whose check of the name panics. This holds for every flag finder
  and every program state, with nil options.
\<close>

theorem ParseFlags_panics_on_empty_long_name:
  "ParseFlags [''--=value''] flags None s = Inl (PanicMessage ''unexpected empty arg name'')
   \<and> ParseFlagsLowLevel [''--=value''] flags None 0 appendPosArgs stopAtFirstPosArg setFlagValue
        posArgsBuf s = Inl (PanicMessage ''unexpected empty arg name'')"
  by (simp add: ParseFlags_def ParseFlagsLowLevel_def IsHelpArg_def parseLongFlag_def)

section \<open>Numbers, sizes, durations and times (utils.go)\<close>

subsection \<open>The standard library as a parameter\<close>

text \<open>
  The functions of Go's standard library that the value parsers call are not part of
  the repository. They are the fields of an environment, and every result below holds
  for every environment. \<open>strconv_ParseInt\<close> and \<open>strconv_ParseUint\<close> are called with
  base 0 and take the bit size; a \<^verbatim>\<open>float64\<close> is its 64 bits; \<open>float_times\<close> is
  \<^verbatim>\<open>uint64(math.Float64frombits(uv) * float64(unit))\<close>; \<open>float_narrow\<close> is
  \<^verbatim>\<open>float64(T(x))\<close> for a float type of the given size and \<open>float_far\<close> the test
  \<^verbatim>\<open>!math.IsNaN(x) && !math.IsInf(x, 0) && math.Abs(float64(test)-x) > 0.1\<close>;
  \<open>float_add\<close> is the sum of two floats of the given size;
  \<open>time_Now\<close> is the clock read by \<^verbatim>\<open>time.Now()\<close>.
\<close>

record Env =
  time_Now :: GoTime
  strconv_ParseInt :: "string \<Rightarrow> nat \<Rightarrow> error + int"
  strconv_ParseUint :: "string \<Rightarrow> nat \<Rightarrow> error + 64 word"
  strconv_ParseFloat :: "string \<Rightarrow> nat \<Rightarrow> error + 64 word"
  float_times :: "64 word \<Rightarrow> 64 word \<Rightarrow> 64 word"
  float_narrow :: "nat \<Rightarrow> 64 word \<Rightarrow> 64 word"
  float_far :: "64 word \<Rightarrow> 64 word \<Rightarrow> bool"
  float_add :: "nat \<Rightarrow> 64 word \<Rightarrow> 64 word \<Rightarrow> 64 word"
  regexp_Compile :: "string \<Rightarrow> error + string"
  time_ParseInLocation :: "string \<Rightarrow> string \<Rightarrow> string \<Rightarrow> error + GoTime"
  time_Date :: "GoTime \<Rightarrow> int \<times> int \<times> int"
  time_Clock :: "GoTime \<Rightarrow> int \<times> int \<times> int"
  time_Make :: "int \<Rightarrow> int \<Rightarrow> int \<Rightarrow> int \<Rightarrow> int \<Rightarrow> int \<Rightarrow> int \<Rightarrow> string \<Rightarrow> GoTime"
  time_In :: "GoTime \<Rightarrow> string \<Rightarrow> GoTime"
  time_AddDate :: "GoTime \<Rightarrow> int \<Rightarrow> int \<Rightarrow> int \<Rightarrow> GoTime"

text \<open>
  Modelled from the Go standard library: \<^verbatim>\<open>Time.Sub\<close> is the difference of the instants
  as an \<^verbatim>\<open>int64\<close> of nanoseconds, saturated at the bounds of the type.
\<close>

definition time_Sub :: "GoTime \<Rightarrow> GoTime \<Rightarrow> int" where
  "time_Sub t u = max (- (2 ^ 63)) (min (2 ^ 63 - 1) (sinceZero t - sinceZero u))"

text \<open>Modelled from the Go standard library: \<^verbatim>\<open>strings.CutPrefix\<close>.\<close>

definition CutPrefix :: "string \<Rightarrow> string \<Rightarrow> string \<times> bool" where
  "CutPrefix s pre = (if HasPrefix s pre then (drop (length pre) s, True) else (s, False))"

text \<open>\<^verbatim>\<open>math.Float64bits(math.NaN())\<close>.\<close>

definition NaN_bits :: "64 word" where
  "NaN_bits = 0x7FF8000000000001"

subsection \<open>Numbers\<close>

text \<open>\<^verbatim>\<open>parseNum\<close>: \<open>(neg, uv, isFloat, err)\<close>.\<close>

definition parseNum :: "Env \<Rightarrow> string \<Rightarrow> bool \<Rightarrow> bool \<times> 64 word \<times> bool \<times> error option" where
  "parseNum env str assumeFloat =
    (case CutPrefix str ''-'' of (str', neg) \<Rightarrow>
       (case (if \<not> assumeFloat then strconv_ParseUint env str' 64 else Inl ErrSyntax) of
          Inr uv \<Rightarrow> (neg, uv, False, None)
        | Inl _ \<Rightarrow>
            (case strconv_ParseFloat env str' 64 of
               Inr fv \<Rightarrow> (neg, fv, True, None)
             | Inl _ \<Rightarrow> (neg, NaN_bits, True, Some ErrSyntax))))"

text \<open>\<^verbatim>\<open>uintPlus\<close>: the sum of two signed magnitudes, in 64-bit unsigned arithmetic.\<close>

definition uintPlus :: "bool \<Rightarrow> 64 word \<Rightarrow> bool \<Rightarrow> 64 word \<Rightarrow> bool \<times> 64 word" where
  "uintPlus aNeg aVal bNeg bVal =
    (if (aNeg \<and> bNeg) \<or> (\<not> aNeg \<and> \<not> bNeg) then (aNeg, aVal + bVal)
     else if aNeg \<and> \<not> bNeg then
       (if bVal > aVal then (False, bVal - aVal) else (True, aVal - bVal))
     else
       (if aVal > bVal then (False, aVal - bVal) else (True, bVal - aVal)))"

subsection \<open>Sizes\<close>

definition sizeUnitInteger :: "char \<Rightarrow> 64 word" where
  "sizeUnitInteger c =
    (if c = CHR ''B'' \<or> c = CHR ''b'' then 1
     else if c = CHR ''K'' \<or> c = CHR ''k'' then 1024
     else if c = CHR ''M'' \<or> c = CHR ''m'' then 1024 * 1024
     else if c = CHR ''G'' \<or> c = CHR ''g'' then 1024 * 1024 * 1024
     else if c = CHR ''T'' \<or> c = CHR ''t'' then 1024 * 1024 * 1024 * 1024
     else if c = CHR ''P'' \<or> c = CHR ''p'' then 1024 * 1024 * 1024 * 1024 * 1024
     else if c = CHR ''E'' \<or> c = CHR ''e'' then 1024 * 1024 * 1024 * 1024 * 1024 * 1024
     else 0)"

definition isDigit :: "char \<Rightarrow> bool" where
  "isDigit c = (\<not> ((of_char c :: nat) < of_char CHR ''0'' \<or> (of_char c :: nat) > of_char CHR ''9''))"

definition isSizeUnit :: "char \<Rightarrow> bool" where
  "isSizeUnit c = (c \<in> set ''BbKkMmGgTtPpEe'')"

text \<open>\<open>s[lo:hi]\<close>.\<close>

definition slice :: "string \<Rightarrow> nat \<Rightarrow> nat \<Rightarrow> string" where
  "slice s lo hi = take (hi - lo) (drop lo s)"

text \<open>
  The loop of \<^verbatim>\<open>parseSize\<close> from index \<open>i\<close>, with the current \<^verbatim>\<open>start\<close>, \<^verbatim>\<open>hasDot\<close>
  and the named results \<^verbatim>\<open>neg\<close> and \<^verbatim>\<open>sz\<close>; the result is \<open>(neg, sz, err)\<close>. The
  cases of the switch in the order dot, default (a byte that is no digit; a digit that
  is not the last byte), unit. The unit case is entered with the unit \<open>c\<close> at index
  \<open>j\<close>: from a unit character, or by the fallthrough from the last digit with
  \<open>c = 'b'\<close> and \<open>j = i + 1\<close>.
\<close>

function parseSize_loop :: "Env \<Rightarrow> string \<Rightarrow> nat \<Rightarrow> nat \<Rightarrow> bool \<Rightarrow> bool \<Rightarrow> 64 word
    \<Rightarrow> bool \<times> 64 word \<times> error option" where
  "parseSize_loop env s i start hasDot neg sz =
    (if \<not> i < length s then (neg, sz, None)
     else if s ! i = CHR ''.'' then
       (if hasDot then (False, 0, Some (ErrInvalidValue ''floating-point'' s True))
        else parseSize_loop env s (i + 1) start True neg sz)
     else if \<not> isSizeUnit (s ! i) \<and> \<not> isDigit (s ! i) then
       (False, 0, Some (ErrInvalidValue ''numeric'' s True))
     else if \<not> isSizeUnit (s ! i) \<and> i + 1 \<noteq> length s then
       parseSize_loop env s (i + 1) start hasDot neg sz
     else
       let c = (if isSizeUnit (s ! i) then s ! i else CHR ''b'');
           j = (if isSizeUnit (s ! i) then i else i + 1)
       in
       if j = 0 then (False, 0, Some (ErrInvalidValue ''numeric'' s True))
       else case parseNum env (slice s start j) hasDot of
         (uvneg, uv, isFloat, Some e) \<Rightarrow> (neg, sz, Some e)
       | (uvneg, uv, isFloat, None) \<Rightarrow>
           (case uintPlus neg sz uvneg
                   (if isFloat then float_times env uv (sizeUnitInteger c)
                    else uv * sizeUnitInteger c) of
              (neg', sz') \<Rightarrow>
                let j' = (if j + 1 < length s \<and> (s ! (j + 1) = CHR ''B'' \<or> s ! (j + 1) = CHR ''b'')
                          then j + 1 else j)
                in parseSize_loop env s (j' + 1) (j' + 1) False neg' sz'))"
  by pat_completeness auto
termination
  by (relation "measure (\<lambda>(env, s, i, start, hasDot, neg, sz). length s - i)") auto

text \<open>\<^verbatim>\<open>parseSize\<close>.\<close>

definition parseSize :: "Env \<Rightarrow> string \<Rightarrow> bool \<times> 64 word \<times> error option" where
  "parseSize env s = parseSize_loop env s 0 0 False False 0"
subsection \<open>Durations\<close>

text \<open>The units of \<^verbatim>\<open>time.Duration\<close>, in nanoseconds.\<close>

definition Nanosecond :: "64 word" where "Nanosecond = 1"
definition Microsecond :: "64 word" where "Microsecond = 1000"
definition Millisecond :: "64 word" where "Millisecond = 1000000"
definition Second :: "64 word" where "Second = 1000000000"
definition Minute :: "64 word" where "Minute = 60000000000"
definition Hour :: "64 word" where "Hour = 3600000000000"

text \<open>
  What the switch of \<^verbatim>\<open>parseDuration\<close> decides for the byte at index \<open>i\<close>: a return
  with the explicit results \<^verbatim>\<open>false, 0, err\<close>; a return with the named results as
  they stand; \<^verbatim>\<open>continue\<close> with the new \<^verbatim>\<open>isFloat\<close>; or a unit. A unit comes with the
  end \<open>k\<close> of the number text \<^verbatim>\<open>s[start:i+adjust]\<close> and the value \<open>i'\<close> of the loop
  variable after the unit's bytes.
\<close>

datatype durStep =
    DurReturn error
  | DurReturnNamed error
  | DurContinue bool
  | DurYear nat nat
  | DurMonth nat nat
  | DurUnit "64 word" nat nat

definition parseDuration_switch :: "string \<Rightarrow> nat \<Rightarrow> bool \<Rightarrow> durStep" where
  "parseDuration_switch s i isFloat =
    (let n = length s; c = s ! i in
     if c = CHR ''y'' then
       DurYear i (if i + 1 < n \<and> s ! (i + 1) = CHR ''r'' then i + 1 else i)
     else if c = CHR ''m'' then
       (if i + 1 < n then
          (if s ! (i + 1) = CHR ''s'' then DurUnit Millisecond i (i + 1)
           else if s ! (i + 1) \<noteq> CHR ''t'' then DurUnit Minute i i
           else DurMonth i (i + 1))
        else DurUnit Minute i i)
     else if c = CHR ''M'' then DurMonth i i
     else if c = CHR ''.'' then
       (if isFloat then DurReturn (ErrInvalidValue ''floating-point'' s True)
        else DurContinue True)
     else if c = CHR ''s'' then DurUnit Second i i
     else if c = CHR ''n'' then
       (if i + 1 < n \<and> s ! (i + 1) = CHR ''s'' then DurUnit Nanosecond i (i + 1)
        else DurReturnNamed (ErrInvalidValue ''unit (ns)'' s True))
     else if c = CHR ''u'' then
       (if i + 1 < n \<and> s ! (i + 1) = CHR ''s'' then DurUnit Microsecond i (i + 1)
        else DurReturnNamed (ErrInvalidValue ''unit (us)'' s True))
     else if c = CHR ''h'' then
       DurUnit Hour i (if i + 1 < n \<and> s ! (i + 1) = CHR ''r'' then i + 1 else i)
     else if c = CHR ''d'' then DurUnit (Hour * 24) i i
     else if c = CHR ''w'' then DurUnit (Hour * 24 * 7) i i
     else if \<not> isDigit c then DurReturn (ErrInvalidValue ''numeric'' s True)
     else if i + 1 \<noteq> n then DurContinue isFloat
     else DurUnit Second (i + 1) (i + 1))"

lemma parseDuration_switch_advances:
  "parseDuration_switch s i isFloat = DurYear k i' \<Longrightarrow> i \<le> i'"
  "parseDuration_switch s i isFloat = DurMonth k i' \<Longrightarrow> i \<le> i'"
  "parseDuration_switch s i isFloat = DurUnit u k i' \<Longrightarrow> i \<le> i'"
  by (auto simp add: parseDuration_switch_def Let_def split: if_splits)

text \<open>
  A year or month unit: \<open>(neg, dur, base)\<close> after adding \<open>uv\<close> calendar units to the
  base time, in the direction of the sign.
\<close>

definition parseDuration_calendar :: "Env \<Rightarrow> bool \<Rightarrow> bool \<Rightarrow> 64 word \<Rightarrow> bool \<Rightarrow> 64 word
    \<Rightarrow> GoTime \<Rightarrow> bool \<times> 64 word \<times> GoTime" where
  "parseDuration_calendar env years uvneg uv neg dur base =
    (if uvneg then
       (let x = (if years then time_AddDate env base (sint (- uv)) 0 0
                 else time_AddDate env base 0 (sint (- uv)) 0)
        in case uintPlus neg dur True (word_of_int (time_Sub base x)) of
             (neg', dur') \<Rightarrow> (neg', dur', x))
     else
       (let x = (if years then time_AddDate env base (sint uv) 0 0
                 else time_AddDate env base 0 (sint uv) 0)
        in case uintPlus neg dur False (word_of_int (time_Sub x base)) of
             (neg', dur') \<Rightarrow> (neg', dur', x)))"

text \<open>
  The loop of \<^verbatim>\<open>parseDuration\<close> from index \<open>i\<close>; at the head of a round
  \<^verbatim>\<open>adjust\<close> is \<open>0\<close>. The result is \<open>(neg, dur, err)\<close>.
\<close>

function parseDuration_loop :: "Env \<Rightarrow> string \<Rightarrow> nat \<Rightarrow> nat \<Rightarrow> bool \<Rightarrow> bool \<Rightarrow> 64 word \<Rightarrow> GoTime
    \<Rightarrow> bool \<times> 64 word \<times> error option" where
  "parseDuration_loop env s i start isFloat neg dur base =
    (if \<not> i < length s then (neg, dur, None)
     else case parseDuration_switch s i isFloat of
       DurReturn e \<Rightarrow> (False, 0, Some e)
     | DurReturnNamed e \<Rightarrow> (neg, dur, Some e)
     | DurContinue isFloat' \<Rightarrow> parseDuration_loop env s (i + 1) start isFloat' neg dur base
     | DurYear k i' \<Rightarrow>
         (case parseNum env (slice s start k) isFloat of
            (uvneg, uv, isF, Some e) \<Rightarrow> (neg, dur, Some e)
          | (uvneg, uv, isF, None) \<Rightarrow>
              if isF then (neg, dur, Some (ErrInvalidValue ''year (integer-only)'' s True))
              else case parseDuration_calendar env True uvneg uv neg dur base of
                (neg', dur', x) \<Rightarrow> parseDuration_loop env s (i' + 1) (i' + 1) False neg' dur' x)
     | DurMonth k i' \<Rightarrow>
         (case parseNum env (slice s start k) isFloat of
            (uvneg, uv, isF, Some e) \<Rightarrow> (neg, dur, Some e)
          | (uvneg, uv, isF, None) \<Rightarrow>
              if isF then (neg, dur, Some (ErrInvalidValue ''month (integer-only)'' s True))
              else case parseDuration_calendar env False uvneg uv neg dur base of
                (neg', dur', x) \<Rightarrow> parseDuration_loop env s (i' + 1) (i' + 1) False neg' dur' x)
     | DurUnit unit k i' \<Rightarrow>
         (case parseNum env (slice s start k) isFloat of
            (uvneg, uv, isF, Some e) \<Rightarrow> (neg, dur, Some e)
          | (uvneg, uv, isF, None) \<Rightarrow>
              (case uintPlus neg dur uvneg
                      (if isF then float_times env uv unit else uv * unit) of
                 (neg', dur') \<Rightarrow>
                   parseDuration_loop env s (i' + 1) (i' + 1) False neg' dur' base)))"
  by pat_completeness auto
termination
  by (relation "measure (\<lambda>(env, s, i, start, isFloat, neg, dur, base). length s - i)")
     (auto dest: parseDuration_switch_advances)

text \<open>\<^verbatim>\<open>parseDuration\<close>.\<close>

definition parseDuration :: "Env \<Rightarrow> string \<Rightarrow> GoTime \<Rightarrow> bool \<times> 64 word \<times> error option" where
  "parseDuration env s base = parseDuration_loop env s 0 0 False False 0 base"

subsection \<open>Times\<close>

text \<open>
  \<^verbatim>\<open>parseTime\<close>: the layouts are tried in the order of the source; a clock without
  a date takes the date of \<open>base\<close>.
\<close>

definition parseTime :: "Env \<Rightarrow> string \<Rightarrow> GoTime \<Rightarrow> error + GoTime" where
  "parseTime env s base =
    (let loc = Location base in
     case time_ParseInLocation env ''15:04'' s loc of
       Inr t \<Rightarrow>
         (case (time_Date env base, time_Clock env t) of
            ((y, mt, d), (hr, m, sec)) \<Rightarrow> Inr (time_Make env y mt d hr m sec 0 loc))
     | Inl _ \<Rightarrow>
     (case time_ParseInLocation env ''2006-01-02'' s loc of
       Inr t \<Rightarrow> Inr t
     | Inl _ \<Rightarrow>
     (case time_ParseInLocation env ''2006-01-02T15:04:05'' s loc of
       Inr t \<Rightarrow> Inr t
     | Inl _ \<Rightarrow>
     (case time_ParseInLocation env ''2006-01-02T15:04:05Z07:00'' s loc of
       Inr t \<Rightarrow> Inr (time_In env t loc)
     | Inl _ \<Rightarrow>
     (case time_ParseInLocation env ''15:04:05'' s loc of
       Inr t \<Rightarrow>
         (case (time_Date env base, time_Clock env t) of
            ((y, mt, d), (hr, m, sec)) \<Rightarrow> Inr (time_Make env y mt d hr m sec 0 loc))
     | Inl _ \<Rightarrow>
     (case time_ParseInLocation env ''15'' s loc of
       Inr t \<Rightarrow>
         (case time_Date env base of
            (y, mt, d) \<Rightarrow> Inr (time_Make env y mt d (fst (time_Clock env t)) 0 0 0 loc))
     | Inl _ \<Rightarrow> Inl (ErrInvalidValue ''time'' s False)))))))"
section \<open>Value peekers (vp_generic.go)\<close>

text \<open>
  The built-in generic value peekers. The integer peekers carry the bit size of their
  type parameter (and its signedness where both are allowed), the float peeker its bit
  size; the wrappers carry the peeker of their element, key or value.
\<close>

datatype VP =
    VPNop
  | VPString
  | VPInt nat
  | VPUint nat
  | VPFloat nat
  | VPBool
  | VPRegexp
  | VPRegexpNocase
  | VPSum VP
  | VPSize bool nat
  | VPDuration bool nat
  | VPUnixSec
  | VPUnixMilli
  | VPUnixMicro
  | VPUnixNano
  | VPTime
  | VPMap VP VP
  | VPSlice VP
  | VPPointer VP

text \<open>
  The contents of a storage cell. A nil map and a nil pointer are \<open>None\<close>; a map is a
  list of its entries with distinct keys.
\<close>

datatype val =
    VUnit
  | VString string
  | VInt int
  | VFloat "64 word"
  | VBool bool
  | VRegexp string
  | VTime GoTime
  | VSlice "val list"
  | VMap "(val \<times> val) list option"
  | VPointer "val option"

text \<open>The zero value of the type a peeker parses into (\<^verbatim>\<open>var tmp T\<close>).\<close>

fun zero_of :: "VP \<Rightarrow> val" where
  "zero_of VPNop = VUnit"
| "zero_of VPString = VString ''''"
| "zero_of (VPInt b) = VInt 0"
| "zero_of (VPUint b) = VInt 0"
| "zero_of (VPFloat b) = VFloat 0"
| "zero_of VPBool = VBool False"
| "zero_of VPRegexp = VRegexp ''''"
| "zero_of VPRegexpNocase = VRegexp ''''"
| "zero_of (VPSum p) = zero_of p"
| "zero_of (VPSize sg b) = VInt 0"
| "zero_of (VPDuration sg b) = VInt 0"
| "zero_of VPUnixSec = VInt 0"
| "zero_of VPUnixMilli = VInt 0"
| "zero_of VPUnixMicro = VInt 0"
| "zero_of VPUnixNano = VInt 0"
| "zero_of VPTime = VTime (GoTime 0 '''')"
| "zero_of (VPMap k v) = VMap None"
| "zero_of (VPSlice e) = VSlice []"
| "zero_of (VPPointer e) = VPointer None"

text \<open>
  Conversion of an integer to a Go integer type of the given signedness and size:
  the value modulo \<open>2 ^ bits\<close>, read in two's complement when signed.
\<close>

definition wrap :: "bool \<Rightarrow> nat \<Rightarrow> int \<Rightarrow> int" where
  "wrap sg b x =
    (if sg then (x + 2 ^ (b - 1)) mod 2 ^ b - 2 ^ (b - 1) else x mod 2 ^ b)"

text \<open>
  \<^verbatim>\<open>*out + tmp\<close> of \<^verbatim>\<open>VPSum\<close>, in the arithmetic of the number type of the inner
  peeker: integers wrap around in the signedness and size \<open>sum_type\<close> gives, floats
  are added in the size \<open>float_size\<close> gives. A peeker without a number type cannot be
  the parameter of \<^verbatim>\<open>VPSum\<close>; for it the cell is left as it is.
\<close>

fun sum_type :: "VP \<Rightarrow> (bool \<times> nat) option" where
  "sum_type (VPInt b) = Some (True, b)"
| "sum_type (VPUint b) = Some (False, b)"
| "sum_type (VPSize sg b) = Some (sg, b)"
| "sum_type (VPDuration sg b) = Some (sg, b)"
| "sum_type VPUnixSec = Some (True, 64)"
| "sum_type VPUnixMilli = Some (True, 64)"
| "sum_type VPUnixMicro = Some (True, 64)"
| "sum_type VPUnixNano = Some (True, 64)"
| "sum_type (VPSum p) = sum_type p"
| "sum_type p = None"

fun float_size :: "VP \<Rightarrow> nat option" where
  "float_size (VPFloat b) = Some b"
| "float_size (VPSum p) = float_size p"
| "float_size p = None"

definition val_plus :: "Env \<Rightarrow> VP \<Rightarrow> val \<Rightarrow> val \<Rightarrow> val" where
  "val_plus env p x y =
    (case (x, y) of
       (VInt a, VInt b) \<Rightarrow>
         (case sum_type p of Some (sg, bits) \<Rightarrow> VInt (wrap sg bits (a + b)) | None \<Rightarrow> x)
     | (VFloat a, VFloat b) \<Rightarrow>
         (case float_size p of Some bits \<Rightarrow> VFloat (float_add env bits a b) | None \<Rightarrow> x)
     | _ \<Rightarrow> x)"

text \<open>
  The reference time of \<^verbatim>\<open>VPDuration\<close>, \<^verbatim>\<open>VPUnixSec\<close> and \<^verbatim>\<open>VPTime\<close>:
  \<^verbatim>\<open>if opts == nil || opts.StartTime.IsZero() { t = time.Now() } else { t = opts.StartTime }\<close>.
\<close>

definition base_time :: "Env \<Rightarrow> ParseOptions option \<Rightarrow> GoTime res" where
  "base_time env opts =
    (case opts of
       None \<Rightarrow> Inr (time_Now env)
     | Some popts \<Rightarrow> if IsZero (StartTime popts) then Inr (time_Now env) else Inr (StartTime popts))"

text \<open>
  The reference time of \<^verbatim>\<open>VPUnixMilli\<close>, \<^verbatim>\<open>VPUnixMicro\<close> and \<^verbatim>\<open>VPUnixNano\<close>:
  \<^verbatim>\<open>if opts != nil || opts.StartTime.IsZero() { t = opts.StartTime } else { t = time.Now() }\<close>.
  With non-nil options the first disjunct holds; with nil options the second disjunct
  reads a field through the nil pointer.
\<close>

definition base_time_inverted :: "Env \<Rightarrow> ParseOptions option \<Rightarrow> GoTime res" where
  "base_time_inverted env opts =
    (case opts of
       Some popts \<Rightarrow> Inr (StartTime popts)
     | None \<Rightarrow> Inl PanicNilDereference)"

text \<open>
  Modelled from the Go standard library: the instant as a count since the Unix epoch,
  which lies 62135596800 seconds after the zero time.
\<close>

definition Unix :: "GoTime \<Rightarrow> int" where
  "Unix t = sinceZero t div 1000000000 - 62135596800"

definition UnixMilli :: "GoTime \<Rightarrow> int" where
  "UnixMilli t = (sinceZero t - 62135596800 * 1000000000) div 1000000"

definition UnixMicro :: "GoTime \<Rightarrow> int" where
  "UnixMicro t = (sinceZero t - 62135596800 * 1000000000) div 1000"

definition UnixNano :: "GoTime \<Rightarrow> int" where
  "UnixNano t = wrap True 64 (sinceZero t - 62135596800 * 1000000000)"

text \<open>How a call of \<^verbatim>\<open>ParseValue\<close> ends: in a panic, or with the returned error.\<close>

datatype outcome = Panicked panic | Returned "error option"

text \<open>
  The common tail of the four Unix peekers and of \<^verbatim>\<open>VPTime\<close> after the reference time:
  \<^verbatim>\<open>t, err = parseTime(arg, t); if err != nil { return }; if set { *out = ... }\<close>.
\<close>

definition parse_time_into :: "Env \<Rightarrow> GoTime res \<Rightarrow> (GoTime \<Rightarrow> val) \<Rightarrow> string \<Rightarrow> val \<Rightarrow> bool
    \<Rightarrow> outcome \<times> val" where
  "parse_time_into env base conv arg cell setv =
    (case base of
       Inl p \<Rightarrow> (Panicked p, cell)
     | Inr t0 \<Rightarrow>
         (case parseTime env arg t0 of
            Inl e \<Rightarrow> (Returned (Some e), cell)
          | Inr t \<Rightarrow> (Returned None, if setv then conv t else cell)))"

text \<open>
  The common tail of \<^verbatim>\<open>VPSize\<close> and \<^verbatim>\<open>VPDuration\<close> after parsing the magnitude: the
  range check by conversion to \<open>T\<close> and back, then the store.
\<close>

definition store_magnitude :: "bool \<Rightarrow> nat \<Rightarrow> bool \<times> 64 word \<times> error option \<Rightarrow> val \<Rightarrow> bool
    \<Rightarrow> outcome \<times> val" where
  "store_magnitude sg b parsed cell setv =
    (case parsed of
       (neg, x, Some e) \<Rightarrow> (Returned (Some e), cell)
     | (neg, x, None) \<Rightarrow>
         if neg then
           (let test = wrap sg b (sint (- x)) in
            if wrap True 64 test \<noteq> sint (- x) then (Returned (Some ErrRange), cell)
            else (Returned None, if setv then VInt test else cell))
         else
           (let test = wrap sg b (uint x) in
            if wrap False 64 test \<noteq> uint x then (Returned (Some ErrRange), cell)
            else (Returned None, if setv then VInt test else cell)))"

text \<open>The entry of a map for a key, the zero value of the element type without one.\<close>

definition map_get :: "VP \<Rightarrow> (val \<times> val) list \<Rightarrow> val \<Rightarrow> val" where
  "map_get ep m key = (case map_of m key of None \<Rightarrow> zero_of ep | Some v \<Rightarrow> v)"

definition map_put :: "(val \<times> val) list \<Rightarrow> val \<Rightarrow> val \<Rightarrow> (val \<times> val) list" where
  "map_put m key v = (key, v) # filter (\<lambda>kv. fst kv \<noteq> key) m"

text \<open>
  \<^verbatim>\<open>ParseValue(opts, arg, out, set)\<close> of every built-in peeker: how the call ends and the
  contents of the cell \<open>*out\<close> afterwards.
\<close>

fun ParseValue :: "Env \<Rightarrow> VP \<Rightarrow> ParseOptions option \<Rightarrow> string \<Rightarrow> val \<Rightarrow> bool \<Rightarrow> outcome \<times> val" where
  "ParseValue env VPNop opts arg cell setv = (Returned None, cell)"
| "ParseValue env VPString opts arg cell setv =
     (Returned None, if setv then VString arg else cell)"
| "ParseValue env (VPInt b) opts arg cell setv =
    (case strconv_ParseInt env arg b of
       Inl e \<Rightarrow> (Returned (Some e), cell)
     | Inr x \<Rightarrow> (Returned None, if setv then VInt (wrap True b x) else cell))"
| "ParseValue env (VPUint b) opts arg cell setv =
    (case strconv_ParseUint env arg b of
       Inl e \<Rightarrow> (Returned (Some e), cell)
     | Inr x \<Rightarrow> (Returned None, if setv then VInt (wrap False b (uint x)) else cell))"
| "ParseValue env (VPFloat b) opts arg cell setv =
    (case strconv_ParseFloat env arg b of
       Inl e \<Rightarrow> (Returned (Some e), cell)
     | Inr x \<Rightarrow>
         let test = float_narrow env b x in
         if float_far env test x then (Returned (Some ErrRange), cell)
         else (Returned None, if setv then VFloat test else cell))"
| "ParseValue env VPBool opts arg cell setv =
    (if arg \<in> set [''true'', ''yes'', ''y'', ''on'', ''1'']
     then (Returned None, if setv then VBool True else cell)
     else if arg \<in> set [''false'', ''no'', ''n'', ''off'', ''0'']
     then (Returned None, if setv then VBool False else cell)
     else (Returned (Some (ErrInvalidValue ''bool'' arg False)), cell))"
| "ParseValue env VPRegexp opts arg cell setv =
    (case regexp_Compile env arg of
       Inl e \<Rightarrow> (Returned (Some e), cell)
     | Inr x \<Rightarrow> (Returned None, if setv then VRegexp x else cell))"
| "ParseValue env VPRegexpNocase opts arg cell setv =
    (case regexp_Compile env (''(?i:'' @ arg @ '')'') of
       Inl e \<Rightarrow> (Returned (Some e), cell)
     | Inr x \<Rightarrow> (Returned None, if setv then VRegexp x else cell))"
| "ParseValue env (VPSum parser) opts arg cell setv =
    (case ParseValue env parser opts arg (zero_of parser) setv of
       (Panicked p, tmp) \<Rightarrow> (Panicked p, cell)
     | (Returned (Some e), tmp) \<Rightarrow> (Returned (Some e), cell)
     | (Returned None, tmp) \<Rightarrow> (Returned None, if setv then val_plus env parser cell tmp else cell))"
| "ParseValue env (VPSize sg b) opts arg cell setv =
     store_magnitude sg b (parseSize env arg) cell setv"
| "ParseValue env (VPDuration sg b) opts arg cell setv =
    (case base_time env opts of
       Inl p \<Rightarrow> (Panicked p, cell)
     | Inr t \<Rightarrow> store_magnitude sg b (parseDuration env arg t) cell setv)"
| "ParseValue env VPUnixSec opts arg cell setv =
     parse_time_into env (base_time env opts) (\<lambda>t. VInt (Unix t)) arg cell setv"
| "ParseValue env VPUnixMilli opts arg cell setv =
     parse_time_into env (base_time_inverted env opts) (\<lambda>t. VInt (UnixMilli t)) arg cell setv"
| "ParseValue env VPUnixMicro opts arg cell setv =
     parse_time_into env (base_time_inverted env opts) (\<lambda>t. VInt (UnixMicro t)) arg cell setv"
| "ParseValue env VPUnixNano opts arg cell setv =
     parse_time_into env (base_time_inverted env opts) (\<lambda>t. VInt (UnixNano t)) arg cell setv"
| "ParseValue env VPTime opts arg cell setv =
     parse_time_into env (base_time env opts) VTime arg cell setv"
| "ParseValue env (VPMap kp ep) opts arg cell setv =
    (case Cut arg ''='' of
       (strKey, strVal, False) \<Rightarrow> (Returned (Some (ErrInvalidValue ''map'' arg False)), cell)
     | (strKey, strVal, True) \<Rightarrow>
         (case ParseValue env kp opts strKey (zero_of kp) setv of
            (Panicked p, key) \<Rightarrow> (Panicked p, cell)
          | (Returned (Some e), key) \<Rightarrow> (Returned (Some e), cell)
          | (Returned None, key) \<Rightarrow>
              let v0 = (if setv then
                          (case cell of VMap (Some m) \<Rightarrow> map_get ep m key | _ \<Rightarrow> zero_of ep)
                        else zero_of ep)
              in case ParseValue env ep opts strVal v0 setv of
                (Panicked p, v) \<Rightarrow> (Panicked p, cell)
              | (Returned (Some e), v) \<Rightarrow> (Returned (Some e), cell)
              | (Returned None, v) \<Rightarrow>
                  if \<not> setv then (Returned None, cell)
                  else (Returned None,
                        VMap (Some (map_put (case cell of VMap (Some m) \<Rightarrow> m | _ \<Rightarrow> []) key v)))))"
| "ParseValue env (VPSlice ep) opts arg cell setv =
    (if setv then
       (case ParseValue env ep opts arg (zero_of ep) True of
          (Panicked p, tmp) \<Rightarrow> (Panicked p, cell)
        | (Returned (Some e), tmp) \<Rightarrow> (Returned (Some e), cell)
        | (Returned None, tmp) \<Rightarrow>
            (Returned None, VSlice ((case cell of VSlice xs \<Rightarrow> xs | _ \<Rightarrow> []) @ [tmp])))
     else (fst (ParseValue env ep opts arg (zero_of ep) setv), cell))"
| "ParseValue env (VPPointer ep) opts arg cell setv =
    (if setv then
       (case cell of
          VPointer (Some target) \<Rightarrow>
            (case ParseValue env ep opts arg target True of
               (r, target') \<Rightarrow> (r, VPointer (Some target')))
        | _ \<Rightarrow>
            (case ParseValue env ep opts arg (zero_of ep) True of
               (Panicked p, tmp) \<Rightarrow> (Panicked p, cell)
             | (Returned (Some e), tmp) \<Rightarrow> (Returned (Some e), cell)
             | (Returned None, tmp) \<Rightarrow> (Returned None, VPointer (Some tmp))))
     else (fst (ParseValue env ep opts arg (zero_of ep) False), cell))"
subsection \<open>Validation leaves the cell alone\<close>

lemma parse_time_into_frame: "snd (parse_time_into env base conv arg cell False) = cell"
  by (simp add: parse_time_into_def split: sum.splits)

lemma store_magnitude_frame: "snd (store_magnitude sg b parsed cell False) = cell"
  by (simp add: store_magnitude_def Let_def split: prod.splits option.splits)

text \<open>
  Claim C7. For every built-in generic value peeker, with every element peeker inside
  slices, maps, sums and pointers, a call of \<^verbatim>\<open>ParseValue\<close> with \<open>set = false\<close> leaves
  the storage cell as it was, whether the call returns nil, returns an error or
  panics.
\<close>

theorem ParseValue_validate_only_keeps_cell:
  "snd (ParseValue env vp opts arg cell False) = cell"
proof (induction vp arbitrary: arg cell)
  case (VPSum vp)
  show ?case by (simp split: prod.splits outcome.splits option.splits)
next
  case (VPMap kp ep)
  show ?case by (simp split: prod.splits outcome.splits option.splits bool.splits)
next
  case (VPDuration sg b)
  show ?case by (simp add: store_magnitude_frame split: sum.splits)
qed (simp_all add: parse_time_into_frame store_magnitude_frame Let_def split: sum.splits)

section \<open>Built-in flags (flag.go, vp.go)\<close>

subsection \<open>The type descriptor of a peeker\<close>

definition VPTypeUnknown :: "32 word" where "VPTypeUnknown = 0"
definition VPTypeString :: "32 word" where "VPTypeString = 1"
definition VPTypeBool :: "32 word" where "VPTypeBool = 2"
definition VPTypeInt :: "32 word" where "VPTypeInt = 3"
definition VPTypeUint :: "32 word" where "VPTypeUint = 4"
definition VPTypeFloat :: "32 word" where "VPTypeFloat = 5"
definition VPTypeSize :: "32 word" where "VPTypeSize = 6"
definition VPTypeDuration :: "32 word" where "VPTypeDuration = 7"
definition VPTypeTime :: "32 word" where "VPTypeTime = 8"
definition VPTypeRegexp :: "32 word" where "VPTypeRegexp = 13"
definition VPTypeElemScalarMASK :: "32 word" where "VPTypeElemScalarMASK = 0x00000fff"
definition VPTypeVariantMASK :: "32 word" where "VPTypeVariantMASK = 0x0000f000"
definition VPTypeVariantSlice :: "32 word" where "VPTypeVariantSlice = 0x00001000"
definition VPTypeVariantSum :: "32 word" where "VPTypeVariantSum = 0x00002000"
definition VPTypeVariantMap :: "32 word" where "VPTypeVariantMap = 0x00003000"

text \<open>\<^verbatim>\<open>Type()\<close> of the built-in peekers.\<close>

fun VP_Type :: "VP \<Rightarrow> 32 word" where
  "VP_Type VPNop = VPTypeUnknown"
| "VP_Type VPString = VPTypeString"
| "VP_Type (VPInt b) = VPTypeInt"
| "VP_Type (VPUint b) = VPTypeUint"
| "VP_Type (VPFloat b) = VPTypeFloat"
| "VP_Type VPBool = VPTypeBool"
| "VP_Type VPRegexp = VPTypeRegexp"
| "VP_Type VPRegexpNocase = VPTypeRegexp"
| "VP_Type (VPSum p) =
    (if and (VP_Type p) VPTypeVariantMASK \<noteq> 0 then VPTypeUnknown
     else or (VP_Type p) VPTypeVariantSum)"
| "VP_Type (VPSize sg b) = VPTypeSize"
| "VP_Type (VPDuration sg b) = VPTypeDuration"
| "VP_Type VPUnixSec = VPTypeTime"
| "VP_Type VPUnixMilli = VPTypeTime"
| "VP_Type VPUnixMicro = VPTypeTime"
| "VP_Type VPUnixNano = VPTypeTime"
| "VP_Type VPTime = VPTypeTime"
| "VP_Type (VPMap kp ep) =
    (if and (VP_Type kp) VPTypeVariantMASK \<noteq> 0 then VPTypeUnknown
     else if and (VP_Type ep) VPTypeVariantMASK = VPTypeVariantMap then VPTypeUnknown
     else or (or (or VPTypeVariantMap (push_bit 16 (VP_Type kp)))
                 (push_bit (28 - 12) (and (VP_Type ep) VPTypeVariantMASK)))
             (and (VP_Type ep) VPTypeElemScalarMASK))"
| "VP_Type (VPSlice ep) =
    (if and (VP_Type ep) VPTypeVariantMASK \<noteq> 0 then VPTypeUnknown
     else or (VP_Type ep) VPTypeVariantSlice)"
| "VP_Type (VPPointer ep) = VP_Type ep"

text \<open>\<^verbatim>\<open>implyFromVPType\<close>: the implied value of a flag of that type, if it has one.\<close>

definition implyFromVPType :: "32 word \<Rightarrow> string option" where
  "implyFromVPType t =
    (let variant = and t VPTypeVariantMASK; scalar = and t (not VPTypeVariantMASK) in
     if variant = VPTypeVariantSum then
       (if scalar = VPTypeInt \<or> scalar = VPTypeUint \<or> scalar = VPTypeFloat \<or> scalar = VPTypeSize
        then Some ''1''
        else if scalar = VPTypeDuration then Some ''1s''
        else None)
     else if variant = VPTypeVariantSlice then
       (if scalar = VPTypeBool then Some ''true'' else None)
     else if variant = 0 then
       (if t = VPTypeBool then Some ''true'' else None)
     else None)"

subsection \<open>FlagBase\<close>

text \<open>
  The program state of the built-in flags: the storage cells by address, and the state
  bits (\<^verbatim>\<open>State_\<close>) of the flag objects by address.
\<close>

record Store =
  cells :: "nat \<Rightarrow> val"
  states :: "nat \<Rightarrow> 32 word"

text \<open>
  \<^verbatim>\<open>FlagBase[T, P]\<close>: \<open>ValuePtr\<close> is the pointer \<^verbatim>\<open>Value\<close>, \<open>self\<close> the address of the
  flag object. \<^verbatim>\<open>FlagBaseV\<close> differs in holding the cell inside the object.
\<close>

record FlagBase =
  FlagUsage :: string
  Ext :: "CompAction option"
  ValuePtr :: nat
  FlagVP :: VP
  self :: nat

text \<open>\<^verbatim>\<open>FlagBase.Decode\<close>.\<close>

definition FlagBase_Decode :: "Env \<Rightarrow> FlagBase \<Rightarrow> ParseOptions option \<Rightarrow> string \<Rightarrow> string \<Rightarrow> bool
    \<Rightarrow> Store \<Rightarrow> (error option \<times> Store) res" where
  "FlagBase_Decode env f opts name arg setv s =
    (if SetAtMostOnce (states s (self f)) \<and> ValueChanged (states s (self f)) \<and> setv
     then Inr (Some ErrFlagSetAtMostOnce, s)
     else case ParseValue env (FlagVP f) opts arg (cells s (ValuePtr f)) setv of
       (Panicked p, c) \<Rightarrow> Inl p
     | (Returned (Some e), c) \<Rightarrow> Inr (Some e, s\<lparr>cells := (cells s)(ValuePtr f := c)\<rparr>)
     | (Returned None, c) \<Rightarrow>
         Inr (None,
              s\<lparr>cells := (cells s)(ValuePtr f := c),
                states := (if setv
                           then (states s)(self f := or (states s (self f)) FlagStateValueChanged)
                           else states s)\<rparr>))"

text \<open>\<^verbatim>\<open>HasValue\<close> of the built-in peekers.\<close>

fun VP_HasValue :: "VP \<Rightarrow> val \<Rightarrow> bool" where
  "VP_HasValue VPNop v = False"
| "VP_HasValue (VPPointer ep) v =
    (case v of VPointer (Some target) \<Rightarrow> VP_HasValue ep target | _ \<Rightarrow> False)"
| "VP_HasValue p v =
    (case v of
       VString x \<Rightarrow> x \<noteq> ''''
     | VInt x \<Rightarrow> x \<noteq> 0
     | VFloat x \<Rightarrow> x \<noteq> 0 \<and> x \<noteq> 0x8000000000000000
     | VBool x \<Rightarrow> x
     | VRegexp x \<Rightarrow> x \<noteq> ''''
     | VTime t \<Rightarrow> \<not> IsZero t
     | VSlice xs \<Rightarrow> xs \<noteq> []
     | VMap (Some m) \<Rightarrow> m \<noteq> []
     | _ \<Rightarrow> False)"

text \<open>
  A \<^verbatim>\<open>*FlagBase\<close> as a \<^verbatim>\<open>Flag\<close>. The text formatting of \<^verbatim>\<open>PrintValue\<close> is not
  modelled; it is the parameter \<open>print\<close>. \<^verbatim>\<open>FlagBase\<close> does not implement
  \<^verbatim>\<open>CompAction\<close>.
\<close>

definition FlagBase_Flag :: "Env \<Rightarrow> (VP \<Rightarrow> val \<Rightarrow> error + string) \<Rightarrow> FlagBase \<Rightarrow> Store Flag" where
  "FlagBase_Flag env print f =
     \<lparr>ImplyValue = implyFromVPType (VP_Type (FlagVP f)),
      Decode = FlagBase_Decode env f,
      AsCompAction = None,
      Extra = Ext f,
      State = (\<lambda>s. states s (self f)),
      HasValue = (\<lambda>s. VP_HasValue (FlagVP f) (cells s (ValuePtr f))),
      PrintValue = (\<lambda>s. print (FlagVP f) (cells s (ValuePtr f))),
      Usage = FlagUsage f\<rparr>"

text \<open>
  \<^verbatim>\<open>FlagEmptyV\<close>, a flag without value: a \<^verbatim>\<open>FlagBaseV\<close> over \<^verbatim>\<open>VPNop\<close> whose implied
  value is the empty text.
\<close>

definition FlagEmptyV_Flag :: "Env \<Rightarrow> FlagBase \<Rightarrow> Store Flag" where
  "FlagEmptyV_Flag env f =
     \<lparr>ImplyValue = Some '''',
      Decode = FlagBase_Decode env (f\<lparr>FlagVP := VPNop\<rparr>),
      AsCompAction = None,
      Extra = Ext f,
      State = (\<lambda>s. states s (self f)),
      HasValue = (\<lambda>s. False),
      PrintValue = (\<lambda>s. Inr ''''),
      Usage = FlagUsage f\<rparr>"

subsection \<open>An environment for the examples\<close>

text \<open>
  Decimal integers without sign for \<^verbatim>\<open>ParseUint\<close>, with an optional minus sign for
  \<^verbatim>\<open>ParseInt\<close>, both with the range check of the bit size; no float syntax, no time
  layout; every text compiles as a regular expression. The package calls \<^verbatim>\<open>strconv\<close>
  with base 0, which also reads the prefixes \<open>0x\<close>, \<open>0o\<close>, \<open>0b\<close>, a leading \<open>0\<close> as octal
  and underscores between digits. This environment agrees with it on decimal texts
  without a leading zero only, and the examples give it no other text; the general
  results hold for every environment.
\<close>

definition decimal :: "string \<Rightarrow> nat option" where
  "decimal s =
    (if s \<noteq> [] \<and> list_all isDigit s
     then Some (foldl (\<lambda>a c. 10 * a + (of_char c - 48)) 0 s) else None)"

definition example_env :: Env where
  "example_env =
     \<lparr>time_Now = GoTime 63800000000000000000 ''UTC'',
      strconv_ParseInt = (\<lambda>s b.
        case CutPrefix s ''-'' of (t, neg) \<Rightarrow>
          (case decimal t of
             None \<Rightarrow> Inl ErrSyntax
           | Some n \<Rightarrow>
               if neg then (if n \<le> 2 ^ (b - 1) then Inr (- int n) else Inl ErrRange)
               else (if n < 2 ^ (b - 1) then Inr (int n) else Inl ErrRange))),
      strconv_ParseUint = (\<lambda>s b.
        case decimal s of
          None \<Rightarrow> Inl ErrSyntax
        | Some n \<Rightarrow> if n < 2 ^ b then Inr (word_of_nat n) else Inl ErrRange),
      strconv_ParseFloat = (\<lambda>s b. Inl ErrSyntax),
      float_times = (\<lambda>x unit. 0),
      float_narrow = (\<lambda>b x. x),
      float_far = (\<lambda>x y. False),
      float_add = (\<lambda>b x y. 0),
      regexp_Compile = (\<lambda>s. Inr s),
      time_ParseInLocation = (\<lambda>layout s loc. Inl ErrSyntax),
      time_Date = (\<lambda>t. (1, 1, 1)),
      time_Clock = (\<lambda>t. (0, 0, 0)),
      time_Make = (\<lambda>y mt d hr m sec ns loc. GoTime 0 loc),
      time_In = (\<lambda>t loc. GoTime (sinceZero t) loc),
      time_AddDate = (\<lambda>t y m d. t)\<rparr>"
theorem ParseValue_validate_only_keeps_cell_witness:
  "snd (ParseValue example_env (VPMap VPString (VPSlice (VPPointer (VPSum (VPInt 64))))) None ''k=12''
          (VMap (Some [(VString ''k'', VSlice [])])) False) =
     VMap (Some [(VString ''k'', VSlice [])])"
  using ParseValue_validate_only_keeps_cell
    [of example_env "VPMap VPString (VPSlice (VPPointer (VPSum (VPInt 64))))" None "''k=12''"
        "VMap (Some [(VString ''k'', VSlice [])])"]
  by simp

subsection \<open>The reference time of the Unix peekers\<close>

text \<open>
  Claim C5 fails on the code for three of the four Unix peekers. \<^verbatim>\<open>VPUnixSec\<close>
  resolves the reference time as the claim says. \<^verbatim>\<open>VPUnixMilli\<close>, \<^verbatim>\<open>VPUnixMicro\<close>
  and \<^verbatim>\<open>VPUnixNano\<close> test \<^verbatim>\<open>opts != nil\<close> where the others test \<^verbatim>\<open>opts == nil\<close>:
  with nil options they dereference the nil pointer, and with options whose start time
  is zero they parse against the zero time instead of the current time. In both cases
  the cell is untouched when the call panics.
\<close>

theorem VPUnix_reference_time_inverted:
  "ParseValue env VPUnixMilli None arg cell setv = (Panicked PanicNilDereference, cell)
   \<and> ParseValue env VPUnixMicro None arg cell setv = (Panicked PanicNilDereference, cell)
   \<and> ParseValue env VPUnixNano None arg cell setv = (Panicked PanicNilDereference, cell)
   \<and> ParseValue env VPUnixSec None arg cell setv =
       parse_time_into env (Inr (time_Now env)) (\<lambda>t. VInt (Unix t)) arg cell setv
   \<and> ParseValue env VPUnixSec
         (Some \<lparr>StartTime = GoTime 0 '''', HandleParseError = None, PosArgsBuf = [], HelpArgs = None\<rparr>)
         arg cell setv =
       parse_time_into env (Inr (time_Now env)) (\<lambda>t. VInt (Unix t)) arg cell setv
   \<and> ParseValue env VPUnixMilli
         (Some \<lparr>StartTime = GoTime 0 '''', HandleParseError = None, PosArgsBuf = [], HelpArgs = None\<rparr>)
         arg cell setv =
       parse_time_into env (Inr (GoTime 0 '''')) (\<lambda>t. VInt (UnixMilli t)) arg cell setv"
  by (simp add: base_time_def base_time_inverted_def parse_time_into_def IsZero_def)

subsection \<open>A leading minus sign\<close>

lemma isDigit_minus: "\<not> isDigit CHR ''-''"
  by (simp add: isDigit_def)

lemma isSizeUnit_minus: "\<not> isSizeUnit CHR ''-''"
  by (simp add: isSizeUnit_def)

lemma parseSize_leading_minus:
  "parseSize env (CHR ''-'' # s) = (False, 0, Some (ErrInvalidValue ''numeric'' (CHR ''-'' # s) True))"
  by (simp add: parseSize_def isDigit_minus isSizeUnit_minus)

lemma parseDuration_leading_minus:
  "parseDuration env (CHR ''-'' # s) base =
     (False, 0, Some (ErrInvalidValue ''numeric'' (CHR ''-'' # s) True))"
  by (simp add: parseDuration_def parseDuration_switch_def isDigit_minus Let_def)

lemma decimal_1: "decimal ''1'' = Some 1"
  by (simp add: decimal_def isDigit_def)

lemma parseNum_example_1: "parseNum example_env ''1'' False = (False, 1, False, None)"
  by (simp add: parseNum_def CutPrefix_def HasPrefix_def example_env_def decimal_1)

lemma parseSize_1G: "parseSize example_env ''1G'' = (False, 1073741824, None)"
  by (simp add: parseSize_def isSizeUnit_def isDigit_def slice_def parseNum_example_1
      uintPlus_def sizeUnitInteger_def)

lemma parseDuration_1h: "parseDuration example_env ''1h'' base = (False, 3600000000000, None)"
  by (simp add: parseDuration_def parseDuration_switch_def isDigit_def slice_def
      parseNum_example_1 uintPlus_def Hour_def Let_def)

text \<open>
  Claim C6 fails on the code. Both loops look at every byte before any number text
  reaches \<^verbatim>\<open>parseNum\<close>, and a \<open>-\<close> is neither a digit, a dot nor a unit: every text
  with a leading \<open>-\<close> is rejected as not numeric, by \<^verbatim>\<open>parseSize\<close> and by
  \<^verbatim>\<open>parseDuration\<close>, in every environment. So \<open>1G\<close> and \<open>1h\<close> parse (here with decimal
  numbers) and \<open>-1G\<close> and \<open>-1h\<close> do not.
\<close>

theorem parseSize_parseDuration_reject_leading_minus:
  "parseSize env (CHR ''-'' # s) = (False, 0, Some (ErrInvalidValue ''numeric'' (CHR ''-'' # s) True))
   \<and> parseDuration env (CHR ''-'' # s) base =
       (False, 0, Some (ErrInvalidValue ''numeric'' (CHR ''-'' # s) True))
   \<and> parseSize example_env ''1G'' = (False, 1073741824, None)
   \<and> parseSize example_env ''-1G'' = (False, 0, Some (ErrInvalidValue ''numeric'' ''-1G'' True))
   \<and> parseDuration example_env ''1h'' base = (False, 3600000000000, None)
   \<and> parseDuration example_env ''-1h'' base =
       (False, 0, Some (ErrInvalidValue ''numeric'' ''-1h'' True))"
  using parseSize_leading_minus[of env s] parseDuration_leading_minus[of env s base]
    parseSize_leading_minus[of example_env "''1G''"]
    parseDuration_leading_minus[of example_env "''1h''" base]
    parseSize_1G parseDuration_1h[of base]
  by simp
subsection \<open>Ambiguous arguments\<close>

lemma Cut_absent: "sep \<noteq> [] \<Longrightarrow> hd sep \<notin> set s \<Longrightarrow> Cut s sep = (s, [], False)"
proof (induction s)
  case Nil
  then show ?case by simp
next
  case (Cons c cs)
  then have "take (length sep) (c # cs) \<noteq> sep"
    by (cases sep) auto
  with Cons show ?case by simp
qed

lemma Cut_eq_sign: "CHR ''='' \<notin> set name \<Longrightarrow> Cut (name @ CHR ''='' # v) ''='' = (name, v, True)"
  by (induction name) auto

lemma Cut_no_eq_sign: "CHR ''='' \<notin> set name \<Longrightarrow> Cut name ''='' = (name, [], False)"
  by (rule Cut_absent) simp_all

text \<open>The flag of the scenario: a sum of 64-bit signed integers.\<close>

definition IntSum_flag :: "Env \<Rightarrow> (VP \<Rightarrow> val \<Rightarrow> error + string) \<Rightarrow> Store Flag" where
  "IntSum_flag env print =
     FlagBase_Flag env print
       \<lparr>FlagUsage = '''', Ext = None, ValuePtr = 0, FlagVP = VPSum (VPInt 64), self = 0\<rparr>"

definition IntSum_finder :: "Env \<Rightarrow> (VP \<Rightarrow> val \<Rightarrow> error + string) \<Rightarrow> string \<Rightarrow> Store Flag option" where
  "IntSum_finder env print = map_of [(''IntSum'', IntSum_flag env print)]"

lemma IntSum_ImplyValue: "ImplyValue (IntSum_flag env print) = Some ''1''"
  by (simp add: IntSum_flag_def FlagBase_Flag_def implyFromVPType_def VPTypeInt_def
      VPTypeVariantMASK_def VPTypeVariantSum_def Let_def)

lemma IntSum_Decode_validate:
  "strconv_ParseInt env ''-1'' 64 = Inr (- 1) \<Longrightarrow>
   Decode (IntSum_flag env print) opts name ''-1'' False s = Inr (None, s)"
  by (simp add: IntSum_flag_def FlagBase_Flag_def FlagBase_Decode_def)

lemma IntSum_Decode_set:
  "strconv_ParseInt env ''-1'' 64 = Inr (- 1) \<Longrightarrow> cells s 0 = VInt 0 \<Longrightarrow> states s 0 = 0 \<Longrightarrow>
   Decode (IntSum_flag env print) opts name ''-1'' True s =
     Inr (None, s\<lparr>cells := (cells s)(0 := VInt (- 1)), states := (states s)(0 := 1)\<rparr>)"
  by (simp add: IntSum_flag_def FlagBase_Flag_def FlagBase_Decode_def SetAtMostOnce_def
      FlagStateSetAtMostOnce_def FlagStateValueChanged_def val_plus_def wrap_def)

lemma parseLongFlag_ambiguous:
  assumes "0 \<le> i" and "i + 1 < int (length args)"
    and "args ! nat i = ''--'' @ name" and "name \<noteq> []" and "CHR ''='' \<notin> set name"
    and "flags name = Some f"
    and "args ! nat (i + 1) \<noteq> ''--''"
    and "Decode f opts name (args ! nat (i + 1)) False s = Inr (None, s')"
    and "HasPrefix (args ! nat (i + 1)) ''-''" and "ImplyValue f \<noteq> None"
  shows "parseLongFlag flags opts args i setv s =
    Inr (True, Some (ErrAmbiguousArgs name (args ! nat (i + 1)) i), s')"
  using assms by (simp add: parseLongFlag_def Cut_no_eq_sign)

lemma parseLongFlag_explicit:
  assumes "0 \<le> i" and "i < int (length args)"
    and "args ! nat i = ''--'' @ name @ ''='' @ v" and "name \<noteq> []" and "CHR ''='' \<notin> set name"
    and "flags name = Some f"
  shows "parseLongFlag flags opts args i setv s =
    (case Decode f opts name v setv s of
       Inl p \<Rightarrow> Inl p
     | Inr (Some e, s') \<Rightarrow> Inr (False, Some (ErrFlagValueInvalid name v i i None), s')
     | Inr (None, s') \<Rightarrow> Inr (False, None, s'))"
  using assms by (simp add: parseLongFlag_def Cut_eq_sign)

lemma ParseFlags_IntSum_ambiguous:
  assumes "strconv_ParseInt env ''-1'' 64 = Inr (- 1)"
  shows "ParseFlags [''--IntSum'', ''-1''] (IntSum_finder env print) None s =
    Inr ([], [], Some (ErrAmbiguousArgs ''IntSum'' ''-1'' 0), s)"
proof -
  have "parseLongFlag (IntSum_finder env print) None [''--IntSum'', ''-1''] 0 True s =
      Inr (True, Some (ErrAmbiguousArgs ''IntSum'' ([''--IntSum'', ''-1''] ! nat (0 + 1)) 0), s)"
    by (rule parseLongFlag_ambiguous[where f = "IntSum_flag env print"])
       (simp_all add: IntSum_finder_def IntSum_ImplyValue IntSum_Decode_validate[OF assms]
          HasPrefix_def)
  then show ?thesis
    by (simp add: ParseFlags_def ParseFlagsLowLevel_def IsHelpArg_def)
qed

lemma ParseFlags_IntSum_explicit:
  assumes "strconv_ParseInt env ''-1'' 64 = Inr (- 1)" and "cells s 0 = VInt 0" and "states s 0 = 0"
  shows "ParseFlags [''--IntSum=-1''] (IntSum_finder env print) None s =
    Inr ([], [], None, s\<lparr>cells := (cells s)(0 := VInt (- 1)), states := (states s)(0 := 1)\<rparr>)"
proof -
  have "parseLongFlag (IntSum_finder env print) None [''--IntSum=-1''] 0 True s =
      (case Decode (IntSum_flag env print) None ''IntSum'' ''-1'' True s of
         Inl p \<Rightarrow> Inl p
       | Inr (Some e, s') \<Rightarrow> Inr (False, Some (ErrFlagValueInvalid ''IntSum'' ''-1'' 0 0 None), s')
       | Inr (None, s') \<Rightarrow> Inr (False, None, s'))"
    by (rule parseLongFlag_explicit) (simp_all add: IntSum_finder_def)
  then show ?thesis
    by (simp add: ParseFlags_def ParseFlagsLowLevel_def IsHelpArg_def
        IntSum_Decode_set[OF assms])
qed
text \<open>
  Claim C4 as stated fails for the standalone dash. The token \<open>--\<close> starts with \<open>-\<close>
  and a \<^verbatim>\<open>FlagEmptyV\<close>, which has an implied value, accepts it as a value; but the
  parser never validates a standalone dash: it decodes the implied value and reports no
  error.
\<close>

definition example_store :: Store where
  "example_store = \<lparr>cells = (\<lambda>a. VInt 0), states = (\<lambda>a. 0)\<rparr>"

definition example_empty_flag :: "Store Flag" where
  "example_empty_flag =
     FlagEmptyV_Flag example_env
       \<lparr>FlagUsage = '''', Ext = None, ValuePtr = 1, FlagVP = VPNop, self = 1\<rparr>"

definition example_empty_finder :: "string \<Rightarrow> Store Flag option" where
  "example_empty_finder = map_of [(''foo'', example_empty_flag)]"

theorem parseLongFlag_ambiguous_args_counterexample:
  "Decode example_empty_flag None ''foo'' ''--'' False example_store = Inr (None, example_store)
   \<and> HasPrefix ''--'' ''-''
   \<and> ImplyValue example_empty_flag = Some ''''
   \<and> parseLongFlag example_empty_finder None [''--foo'', ''--''] 0 True
        example_store =
       Inr (False, None, example_store\<lparr>states := (states example_store)(1 := 1)\<rparr>)
   \<and> ParseFlags [''--foo'', ''--''] example_empty_finder None example_store =
       Inr ([], [], None, example_store\<lparr>states := (states example_store)(1 := 1)\<rparr>)"
proof -
  have d: "Decode example_empty_flag None ''foo'' v setv example_store =
      Inr (None, if setv then example_store\<lparr>states := (states example_store)(1 := 1)\<rparr>
                 else example_store)" for v setv
    by (simp add: example_empty_flag_def FlagEmptyV_Flag_def FlagBase_Decode_def
        example_store_def SetAtMostOnce_def FlagStateSetAtMostOnce_def
        FlagStateValueChanged_def fun_upd_idem_iff)
  have i: "ImplyValue example_empty_flag = Some ''''"
    by (simp add: example_empty_flag_def FlagEmptyV_Flag_def)
  have p: "parseLongFlag example_empty_finder None [''--foo'', ''--''] 0 True
        example_store =
       Inr (False, None, example_store\<lparr>states := (states example_store)(1 := 1)\<rparr>)"
    by (simp add: parseLongFlag_def parseLongFlag_TryImplied_def example_empty_finder_def d i)
  have "ParseFlags [''--foo'', ''--''] example_empty_finder None example_store =
       Inr ([], [], None, example_store\<lparr>states := (states example_store)(1 := 1)\<rparr>)"
    by (simp add: ParseFlags_def ParseFlagsLowLevel_def IsHelpArg_def p Let_def)
  with d[of "''--''" False] i p show ?thesis by (simp add: HasPrefix_def)
qed

text \<open>
  Claim C4, as amended. When a long flag without \<open>=\<close> is followed by a token other
  than the standalone dash \<open>--\<close> that validates as a value (\<^verbatim>\<open>Decode\<close> with
  \<open>set = false\<close> succeeds), starts with \<open>-\<close>, and the flag has an implied value,
  \<^verbatim>\<open>parseLongFlag\<close> reports the ambiguous-args error with the flag name, the token and
  the position, and asks to skip the token. A standalone dash after the flag is never
  validated: the parser goes to the implied value. With the \<open>=\<close> form the value is
  decoded directly. For a flag \<open>--IntSum\<close> that sums 64-bit signed integers, in every
  environment whose \<^verbatim>\<open>strconv.ParseInt\<close> reads \<open>-1\<close> as \<open>-1\<close>, parsing
  \<open>["--IntSum", "-1"]\<close> yields the ambiguous-args error \<open>{Name: "IntSum", Value: "-1"}\<close>
  and leaves the state as it was, and parsing \<open>["--IntSum=-1"]\<close> on a cell holding
  \<open>0\<close> stores \<open>-1\<close>.
\<close>

theorem parseLongFlag_ambiguous_args:
  assumes "0 \<le> i" and "i < int (length args)"
    and "name \<noteq> []" and "CHR ''='' \<notin> set name" and "flags name = Some f"
  shows
   "(args ! nat i = ''--'' @ name \<longrightarrow> i + 1 < int (length args) \<longrightarrow>
       args ! nat (i + 1) \<noteq> ''--'' \<longrightarrow>
       Decode f opts name (args ! nat (i + 1)) False s = Inr (None, s') \<longrightarrow>
       HasPrefix (args ! nat (i + 1)) ''-'' \<longrightarrow> ImplyValue f \<noteq> None \<longrightarrow>
       parseLongFlag flags opts args i setv s =
         Inr (True, Some (ErrAmbiguousArgs name (args ! nat (i + 1)) i), s'))
    \<and> (args ! nat i = ''--'' @ name \<longrightarrow> i + 1 < int (length args) \<longrightarrow>
         args ! nat (i + 1) = ''--'' \<longrightarrow>
         parseLongFlag flags opts args i setv s =
           parseLongFlag_TryImplied f opts args i setv name None s)
    \<and> (args ! nat i = ''--'' @ name @ ''='' @ v \<longrightarrow>
         parseLongFlag flags opts args i setv s =
           (case Decode f opts name v setv s of
              Inl p \<Rightarrow> Inl p
            | Inr (Some e, s'') \<Rightarrow> Inr (False, Some (ErrFlagValueInvalid name v i i None), s'')
            | Inr (None, s'') \<Rightarrow> Inr (False, None, s'')))
    \<and> (strconv_ParseInt env ''-1'' 64 = Inr (- 1) \<longrightarrow>
         ParseFlags [''--IntSum'', ''-1''] (IntSum_finder env print) None st =
           Inr ([], [], Some (ErrAmbiguousArgs ''IntSum'' ''-1'' 0), st)
         \<and> (cells st 0 = VInt 0 \<longrightarrow> states st 0 = 0 \<longrightarrow>
              ParseFlags [''--IntSum=-1''] (IntSum_finder env print) None st =
                Inr ([], [], None,
                     st\<lparr>cells := (cells st)(0 := VInt (- 1)), states := (states st)(0 := 1)\<rparr>)))"
proof (intro conjI impI)
  assume "args ! nat i = ''--'' @ name" and "i + 1 < int (length args)"
    and "args ! nat (i + 1) \<noteq> ''--''"
    and "Decode f opts name (args ! nat (i + 1)) False s = Inr (None, s')"
    and "HasPrefix (args ! nat (i + 1)) ''-''" and "ImplyValue f \<noteq> None"
  with assms show "parseLongFlag flags opts args i setv s =
      Inr (True, Some (ErrAmbiguousArgs name (args ! nat (i + 1)) i), s')"
    by (intro parseLongFlag_ambiguous) simp_all
next
  assume "args ! nat i = ''--'' @ name" and "i + 1 < int (length args)"
    and "args ! nat (i + 1) = ''--''"
  with assms show "parseLongFlag flags opts args i setv s =
      parseLongFlag_TryImplied f opts args i setv name None s"
    by (simp add: parseLongFlag_def Cut_no_eq_sign)
next
  assume "args ! nat i = ''--'' @ name @ ''='' @ v"
  with assms show "parseLongFlag flags opts args i setv s =
      (case Decode f opts name v setv s of
         Inl p \<Rightarrow> Inl p
       | Inr (Some e, s'') \<Rightarrow> Inr (False, Some (ErrFlagValueInvalid name v i i None), s'')
       | Inr (None, s'') \<Rightarrow> Inr (False, None, s''))"
    by (intro parseLongFlag_explicit) simp_all
next
  assume "strconv_ParseInt env ''-1'' 64 = Inr (- 1)"
  then show "ParseFlags [''--IntSum'', ''-1''] (IntSum_finder env print) None st =
      Inr ([], [], Some (ErrAmbiguousArgs ''IntSum'' ''-1'' 0), st)"
    by (rule ParseFlags_IntSum_ambiguous)
next
  assume "strconv_ParseInt env ''-1'' 64 = Inr (- 1)" and "cells st 0 = VInt 0"
    and "states st 0 = 0"
  then show "ParseFlags [''--IntSum=-1''] (IntSum_finder env print) None st =
      Inr ([], [], None,
           st\<lparr>cells := (cells st)(0 := VInt (- 1)), states := (states st)(0 := 1)\<rparr>)"
    by (rule ParseFlags_IntSum_explicit)
qed

lemma example_env_minus_one: "strconv_ParseInt example_env ''-1'' 64 = Inr (- 1)"
  by (simp add: example_env_def CutPrefix_def HasPrefix_def decimal_1)

theorem parseLongFlag_ambiguous_args_witness:
  "parseLongFlag (IntSum_finder example_env (\<lambda>vp v. Inr '''')) None [''--IntSum'', ''-1''] 0 True
       example_store =
     Inr (True, Some (ErrAmbiguousArgs ''IntSum'' ''-1'' 0), example_store)
   \<and> ParseFlags [''--IntSum'', ''-1''] (IntSum_finder example_env (\<lambda>vp v. Inr '''')) None
        example_store =
       Inr ([], [], Some (ErrAmbiguousArgs ''IntSum'' ''-1'' 0), example_store)
   \<and> ParseFlags [''--IntSum=-1''] (IntSum_finder example_env (\<lambda>vp v. Inr '''')) None
        example_store =
       Inr ([], [], None,
            example_store\<lparr>cells := (cells example_store)(0 := VInt (- 1)),
                           states := (states example_store)(0 := 1)\<rparr>)"
proof -
  let ?print = "\<lambda>(vp :: VP) (v :: val). (Inr '''' :: error + string)"
  let ?flags = "IntSum_finder example_env ?print"
  let ?f = "IntSum_flag example_env ?print"
  have pre: "(0::int) \<le> 0" "(0::int) < int (length [''--IntSum'', ''-1''])"
    "''IntSum'' \<noteq> []" "CHR ''='' \<notin> set ''IntSum''" "?flags ''IntSum'' = Some ?f"
    by (simp_all add: IntSum_finder_def)
  note inst = parseLongFlag_ambiguous_args[where i = 0 and args = "[''--IntSum'', ''-1'']"
      and name = "''IntSum''" and flags = ?flags and f = ?f and opts = None
      and s = example_store and s' = example_store and setv = True and v = "''-1''"
      and env = example_env and print = ?print and st = example_store, OF pre]
  have v: "Decode ?f None ''IntSum'' ''-1'' False example_store = Inr (None, example_store)"
    by (rule IntSum_Decode_validate[OF example_env_minus_one])
  have c: "cells example_store 0 = VInt 0" "states example_store 0 = 0"
    by (simp_all add: example_store_def)
  from inst v c example_env_minus_one show ?thesis
    by (simp add: HasPrefix_def IntSum_ImplyValue)
qed

section \<open>Completion (comp.go)\<close>

subsection \<open>The completion task\<close>

definition CompStateFailed :: "32 word" where "CompStateFailed = 1"
definition CompStateDone :: "32 word" where "CompStateDone = 2"
definition CompStateHasFlagNames :: "32 word" where "CompStateHasFlagNames = 4"
definition CompStateHasFlagValues :: "32 word" where "CompStateHasFlagValues = 8"
definition CompStateHasSubcmds :: "32 word" where "CompStateHasSubcmds = 16"
definition CompStateHasFiles :: "32 word" where "CompStateHasFiles = 32"
definition CompStateHasDirs :: "32 word" where "CompStateHasDirs = 64"

text \<open>
  \<^verbatim>\<open>CompTask\<close> with the fields that \<^verbatim>\<open>AddDefault\<close> and the functions it calls read
  or write.
\<close>

record 's CompTask =
  result :: "CompItem list"
  ToComplete :: string
  Route :: "'s Route"
  FlagMissingValue :: "'s Flag option"
  state :: "32 word"
  want :: "32 word"

text \<open>
  The similarity test \<^verbatim>\<open>isSimilar(known, toCompare, true)\<close> (utils.go), a bounded
  edit distance, only widens the filter on flag names and sub-command names. It is a
  parameter here: every result holds for every similarity test.
\<close>

type_synonym similarity = "string \<Rightarrow> string \<Rightarrow> bool"

subsection \<open>Adding items\<close>

text \<open>\<^verbatim>\<open>Add\<close>: the number of items added and the task afterwards.\<close>

definition Add :: "bool \<Rightarrow> CompItem list \<Rightarrow> 's CompTask \<Rightarrow> int \<times> 's CompTask" where
  "Add force items tsk =
    (if \<not> force \<and> and (state tsk) (or CompStateFailed CompStateDone) \<noteq> 0 then (0, tsk)
     else (int (length items), tsk\<lparr>result := result tsk @ items\<rparr>))"

text \<open>\<^verbatim>\<open>AddMatched\<close>: only the items whose value has the prefix \<^verbatim>\<open>tsk.ToComplete\<close>.\<close>

definition AddMatched :: "bool \<Rightarrow> CompItem list \<Rightarrow> 's CompTask \<Rightarrow> int \<times> 's CompTask" where
  "AddMatched force items tsk =
    (if \<not> force \<and> and (state tsk) (or CompStateFailed CompStateDone) \<noteq> 0 then (0, tsk)
     else (int (length (filter (\<lambda>item. HasPrefix (Value item) (ToComplete tsk)) items)),
           tsk\<lparr>result := result tsk @
                   filter (\<lambda>item. HasPrefix (Value item) (ToComplete tsk)) items\<rparr>))"

text \<open>
  \<^verbatim>\<open>AddFiles\<close> and \<^verbatim>\<open>AddDirs\<close>, which differ in the state bit and the kind of the
  items: one item for each non-empty glob, or one item without a glob.
\<close>

definition AddGlobs :: "32 word \<Rightarrow> CompKind \<Rightarrow> bool \<Rightarrow> string list \<Rightarrow> 's CompTask
    \<Rightarrow> int \<times> 's CompTask" where
  "AddGlobs has kind force globs tsk =
    (if \<not> force \<and> and (state tsk) (or has (or CompStateFailed CompStateDone)) \<noteq> 0
     then (0, tsk)
     else
       let tsk1 = tsk\<lparr>state := or (state tsk) has\<rparr> in
       case Add force (map (\<lambda>glob. CompItem glob '''' kind) (filter (\<lambda>glob. glob \<noteq> '''') globs))
              tsk1 of
         (added, tsk2) \<Rightarrow>
           if added = 0 then Add force [CompItem '''' '''' kind] tsk2 else (added, tsk2))"

definition AddFiles :: "bool \<Rightarrow> string list \<Rightarrow> 's CompTask \<Rightarrow> int \<times> 's CompTask" where
  "AddFiles = AddGlobs CompStateHasFiles CompKindFiles"

definition AddDirs :: "bool \<Rightarrow> string list \<Rightarrow> 's CompTask \<Rightarrow> int \<times> 's CompTask" where
  "AddDirs = AddGlobs CompStateHasDirs CompKindDirs"

text \<open>
  \<^verbatim>\<open>Suggest\<close> of the built-in completion actions: the number of items added, the state
  bits returned, and the task afterwards.
\<close>

fun Suggest :: "CompAction \<Rightarrow> 's CompTask \<Rightarrow> int \<times> 32 word \<times> 's CompTask" where
  "Suggest CompActionDisable tsk =
     (0, CompStateFailed, tsk\<lparr>state := or (state tsk) CompStateFailed\<rparr>)"
| "Suggest (CompActionStatic suggestions w st) tsk =
    (if w \<noteq> 0 \<and> and (want tsk) w = 0 then (0, 0, tsk)
     else case AddMatched False suggestions tsk of (added, tsk') \<Rightarrow> (added, st, tsk'))"
| "Suggest CompActionDirs tsk =
    (case AddDirs False [] tsk of (added, tsk') \<Rightarrow> (added, 0, tsk'))"
| "Suggest CompActionFiles tsk =
    (case AddFiles False [] tsk of (added, tsk') \<Rightarrow> (added, 0, tsk'))"

text \<open>
  The way \<^verbatim>\<open>AddDefault\<close> and \<^verbatim>\<open>AddFlagValues\<close> consult a completion provider that
  may be nil: \<^verbatim>\<open>added, s = x.Suggest(tsk); tsk.state |= s\<close>.
\<close>

definition consult :: "CompAction option \<Rightarrow> 's CompTask \<Rightarrow> int \<times> 's CompTask" where
  "consult provider tsk =
    (case provider of
       None \<Rightarrow> (0, tsk)
     | Some x \<Rightarrow> (case Suggest x tsk of (n, st, t) \<Rightarrow> (n, t\<lparr>state := or (state t) st\<rparr>)))"

text \<open>
  The completion provider of a flag: \<^verbatim>\<open>comp, ok := flag.(CompAction)\<close>, else
  \<^verbatim>\<open>flag.Extra().(CompAction)\<close>.
\<close>

definition flag_CompAction :: "'s Flag \<Rightarrow> CompAction option" where
  "flag_CompAction flag = (case AsCompAction flag of Some c \<Rightarrow> Some c | None \<Rightarrow> Extra flag)"

subsection \<open>Flag values\<close>

lemma Cut_rest_shorter:
  "s \<noteq> [] \<Longrightarrow> sep \<noteq> [] \<Longrightarrow> Cut s sep = (before, after, found) \<Longrightarrow> length after < length s"
proof (induction s arbitrary: before after found)
  case Nil
  then show ?case by simp
next
  case (Cons c cs)
  show ?case
  proof (cases "take (length sep) (c # cs) = sep")
    case True
    with Cons.prems show ?thesis by (cases sep) auto
  next
    case False
    show ?thesis
    proof (cases cs)
      case Nil
      with False Cons.prems show ?thesis by (auto split: if_splits)
    next
      case (Cons d ds)
      obtain b a f where c: "Cut cs sep = (b, a, f)" by (cases "Cut cs sep") auto
      with Cons.IH[OF _ \<open>sep \<noteq> []\<close> c] Cons have "length a < length cs" by simp
      with False Cons.prems c show ?thesis by auto
    qed
  qed
qed

text \<open>
  The entries that the loops \<^verbatim>\<open>for len(def) > 0 { ent, def, _ = strings.Cut(def, sep) }\<close>
  visit, in order.
\<close>

function entries :: "string \<Rightarrow> string \<Rightarrow> string list" where
  "entries s sep =
    (if s = [] \<or> sep = [] then []
     else case Cut s sep of (ent, rest, found) \<Rightarrow> ent # entries rest sep)"
  by pat_completeness auto
termination
  by (relation "measure (\<lambda>(s, sep). length s)") (auto dest: Cut_rest_shorter[OF _ _ sym])

text \<open>
  The default-value part of \<^verbatim>\<open>AddFlagValues\<close> for a non-empty default text: the
  candidate items before the prefix filter.
\<close>

definition default_items :: "bool \<Rightarrow> string \<Rightarrow> CompItem list" where
  "default_items changed def =
    (if hd def = CHR ''['' \<and> last def = CHR '']'' then
       map (\<lambda>ent. CompItem ent ''default value'' CompKindFlagValue)
         (let ents = entries (slice def 1 (length def - 1)) '', ''
          in if changed then drop 1 ents else ents)
     else if \<not> changed then [CompItem def ''default value'' CompKindFlagValue]
     else [])"

text \<open>The label \<^verbatim>\<open>DeduceDefault\<close> of \<^verbatim>\<open>AddFlagValues\<close>: the printed current value.\<close>

definition deduced_items :: "'s Flag \<Rightarrow> 's \<Rightarrow> CompItem list" where
  "deduced_items flag s =
    (if \<not> ValueChanged (State flag s) \<and> HasValue flag s then
       (case PrintValue flag s of
          Inr text \<Rightarrow> [CompItem text ''default value'' CompKindFlagValue]
        | Inl e \<Rightarrow> [])
     else [])"

text \<open>
  \<^verbatim>\<open>AddFlagValues(force, flag, def, addDefaults)\<close>. Every default item goes through its
  own call of \<^verbatim>\<open>AddMatched\<close>; the state of the task is the same for all of them.
\<close>

definition AddFlagValues :: "bool \<Rightarrow> 's Flag option \<Rightarrow> string \<Rightarrow> bool \<Rightarrow> 's \<Rightarrow> 's CompTask
    \<Rightarrow> int \<times> 's CompTask" where
  "AddFlagValues force flagp def addDefaults s tsk =
    (case flagp of
       None \<Rightarrow> (0, tsk)
     | Some flag \<Rightarrow>
         if \<not> force \<and>
            and (state tsk) (or CompStateHasFlagValues (or CompStateFailed CompStateDone)) \<noteq> 0
         then (0, tsk)
         else
           case consult (flag_CompAction flag)
                  (tsk\<lparr>state := or (state tsk) CompStateHasFlagValues\<rparr>) of
             (added, tsk2) \<Rightarrow>
               if \<not> addDefaults then (added, tsk2)
               else
                 case AddMatched force
                        ((if length def = 0 then []
                          else default_items (ValueChanged (State flag s)) def)
                         @ deduced_items flag s) tsk2 of
                   (n, tsk3) \<Rightarrow> (added + n, tsk3))"

subsection \<open>Flag names\<close>

text \<open>\<^verbatim>\<open>IsShorthand\<close> (flag.go): a single rune that is not a hyphen.\<close>

definition IsShorthand :: "string \<Rightarrow> bool" where
  "IsShorthand s =
    (if length s = 0 then False
     else if (of_char (s ! 0) :: nat) < 0x80 then length s = 1 \<and> s ! 0 \<noteq> CHR ''-''
     else length s = DecodeRuneInString_width s)"

text \<open>Modelled from the Go standard library: \<^verbatim>\<open>strings.Contains\<close>.\<close>

fun Contains_str :: "string \<Rightarrow> string \<Rightarrow> bool" where
  "Contains_str [] sub = (sub = [])"
| "Contains_str (c # cs) sub = (take (length sub) (c # cs) = sub \<or> Contains_str cs sub)"

text \<open>
  The generic \<^verbatim>\<open>FindFlag(flags, names...)\<close> (flag_indexer.go): the first non-empty name
  that the finder resolves, with its flag. The finder is given by its \<^verbatim>\<open>FindFlag\<close>
  method, which for a route may panic.
\<close>

fun FindFlag_any :: "(string \<Rightarrow> 'f option res) \<Rightarrow> string list \<Rightarrow> (string \<times> 'f) option res" where
  "FindFlag_any finder [] = Inr None"
| "FindFlag_any finder (name # names) =
    (if length name = 0 then FindFlag_any finder names
     else case finder name of
       Inl p \<Rightarrow> Inl p
     | Inr (Some flag) \<Rightarrow> Inr (Some (name, flag))
     | Inr None \<Rightarrow> FindFlag_any finder names)"

text \<open>
  Modelled from the Go standard library: \<^verbatim>\<open>sort.Search(n, f)\<close>, the binary search for
  the smallest index in \<open>[0, n)\<close> at which \<open>f\<close> holds, \<open>n\<close> without one.
\<close>

function sort_Search_loop :: "(int \<Rightarrow> bool) \<Rightarrow> int \<Rightarrow> int \<Rightarrow> int" where
  "sort_Search_loop f i j =
    (if i < j then
       (let h = (i + j) div 2 in
        if \<not> f h then sort_Search_loop f (h + 1) j else sort_Search_loop f i h)
     else i)"
  by pat_completeness auto
termination
  by (relation "measure (\<lambda>(f, i, j). nat (j - i))") auto

definition sort_Search :: "int \<Rightarrow> (int \<Rightarrow> bool) \<Rightarrow> int" where
  "sort_Search n f = sort_Search_loop f 0 n"

text \<open>
  One finder in \<^verbatim>\<open>Route.NthFlag\<close>: the \<open>i\<close>-th info if the finder iterates and has
  one (\<open>Inl\<close>); else the index for the next finder, less the count of this one's flags
  (\<open>Inr\<close>).
\<close>

definition NthFlag_in :: "'s Indexer option \<Rightarrow> 's \<Rightarrow> int \<Rightarrow> FlagInfo + int" where
  "NthFlag_in flags s i =
    (case flags of
       None \<Rightarrow> Inr i
     | Some fl \<Rightarrow>
         (case NthFlag fl of
            None \<Rightarrow> Inr i
          | Some iter \<Rightarrow>
              (case iter s i of
                 Some info \<Rightarrow> Inl info
               | None \<Rightarrow> Inr (i - sort_Search i (\<lambda>k. iter s k = None)))))"

text \<open>The loop of \<^verbatim>\<open>Route.NthFlag\<close>, \<^verbatim>\<open>for j := len(route) - 1; j >= 0; j--\<close>.\<close>

fun Route_NthFlag_loop :: "'s Route \<Rightarrow> nat \<Rightarrow> 's \<Rightarrow> int \<Rightarrow> FlagInfo option" where
  "Route_NthFlag_loop route 0 s i = None"
| "Route_NthFlag_loop route (Suc j) s i =
    (case NthFlag_in (Flags (route ! j)) s i of
       Inl info \<Rightarrow> Some info
     | Inr i' \<Rightarrow> Route_NthFlag_loop route j s i')"

text \<open>\<^verbatim>\<open>Route.NthFlag\<close>; on the empty route the target is nil and there is no flag.\<close>

definition Route_NthFlag :: "'s Route \<Rightarrow> 's \<Rightarrow> int \<Rightarrow> FlagInfo option" where
  "Route_NthFlag route s i =
    (if route = [] then None
     else case NthFlag_in (LocalFlags (last route)) s i of
       Inl info \<Rightarrow> Some info
     | Inr i' \<Rightarrow> Route_NthFlag_loop route (length route) s i')"

text \<open>
  The items that one round of a loop of \<^verbatim>\<open>AddFlagNames\<close> adds for the flag info it
  reads: for an empty text or a single hyphen, for a text with the prefix \<open>--\<close>, and for
  a text with the prefix \<open>-\<close>.
\<close>

definition flag_name_item :: "bool \<Rightarrow> 's Flag \<Rightarrow> string \<Rightarrow> CompItem" where
  "flag_name_item descr f v = CompItem v (if descr then Usage f else '''') CompKindFlagName"

definition flag_names_all :: "(string \<Rightarrow> 's Flag option res) \<Rightarrow> 's \<Rightarrow> bool \<Rightarrow> FlagInfo
    \<Rightarrow> CompItem list res" where
  "flag_names_all finder s descr info =
    (case FindFlag_any finder [Name info, Shorthand info] of
       Inl p \<Rightarrow> Inl p
     | Inr None \<Rightarrow> Inr []
     | Inr (Some (n, f)) \<Rightarrow>
         if Hidden (State f s) then Inr []
         else Inr ((if length (Name info) \<noteq> 0 \<and> \<not> IsShorthand (Name info)
                    then [flag_name_item descr f (Name info)] else [])
                   @ (if IsShorthand (Shorthand info)
                      then [flag_name_item descr f (Shorthand info)] else [])))"

definition flag_names_long :: "similarity \<Rightarrow> (string \<Rightarrow> 's Flag option res) \<Rightarrow> 's \<Rightarrow> string \<Rightarrow> bool
    \<Rightarrow> FlagInfo \<Rightarrow> CompItem list res" where
  "flag_names_long isSimilar finder s toComplete descr info =
    (if (length (Name info) = 0 \<or> IsShorthand (Name info)
           \<or> \<not> HasPrefix (Name info) (drop 2 toComplete))
        \<and> \<not> isSimilar (Name info) (drop 2 toComplete)
     then Inr []
     else case FindFlag_any finder [Name info, Shorthand info] of
       Inl p \<Rightarrow> Inl p
     | Inr None \<Rightarrow> Inr []
     | Inr (Some (n, f)) \<Rightarrow>
         if Hidden (State f s) then Inr [] else Inr [flag_name_item descr f (Name info)])"

definition flag_names_short :: "(string \<Rightarrow> 's Flag option res) \<Rightarrow> 's \<Rightarrow> string \<Rightarrow> bool
    \<Rightarrow> FlagInfo \<Rightarrow> CompItem list res" where
  "flag_names_short finder s toComplete descr info =
    (if \<not> IsShorthand (Shorthand info) \<and> \<not> IsShorthand (Name info) then Inr []
     else
       let shorthand = (if IsShorthand (Shorthand info) then Shorthand info else Name info) in
       case FindFlag_any finder [Name info, Shorthand info] of
         Inl p \<Rightarrow> Inl p
       | Inr None \<Rightarrow> Inr []
       | Inr (Some (n, f)) \<Rightarrow>
           if Hidden (State f s) \<or> \<not> Contains_str toComplete shorthand then Inr []
           else Inr [flag_name_item descr f shorthand])"

text \<open>
  The loops of \<^verbatim>\<open>AddFlagNames\<close>,
  \<^verbatim>\<open>for i := 0; ; i++ { info, ok := flags.NthFlag(i); if !ok { break }; ... }\<close>.
  They end when the iterator says not-found; with an iterator that never does, the
  loop does not return (\<open>None\<close>).
\<close>

partial_function (option) AddFlagNames_loop :: "(int \<Rightarrow> FlagInfo option)
    \<Rightarrow> (FlagInfo \<Rightarrow> CompItem list res) \<Rightarrow> bool \<Rightarrow> int \<Rightarrow> int \<Rightarrow> 's CompTask
    \<Rightarrow> (int \<times> 's CompTask) res option" where
  "AddFlagNames_loop iterate items force i added tsk =
    (case iterate i of
       None \<Rightarrow> Some (Inr (added, tsk))
     | Some info \<Rightarrow>
         (case items info of
            Inl p \<Rightarrow> Some (Inl p)
          | Inr its \<Rightarrow>
              (case Add force its tsk of
                 (n, tsk') \<Rightarrow> AddFlagNames_loop iterate items force (i + 1) (added + n) tsk')))"

text \<open>
  \<^verbatim>\<open>AddFlagNames(force, flags, descr)\<close>; with \<open>flags = None\<close> (nil) the route of the
  task is the indexer.
\<close>

definition AddFlagNames :: "similarity \<Rightarrow> bool \<Rightarrow> 's Indexer option \<Rightarrow> bool \<Rightarrow> 's \<Rightarrow> 's CompTask
    \<Rightarrow> (int \<times> 's CompTask) res option" where
  "AddFlagNames isSimilar force flags descr s tsk =
    (if \<not> force \<and>
        and (state tsk) (or CompStateHasFlagNames (or CompStateFailed CompStateDone)) \<noteq> 0
     then Some (Inr (0, tsk))
     else
       let tsk1 = tsk\<lparr>state := or (state tsk) CompStateHasFlagNames\<rparr>;
           iterate = (case flags of
                    None \<Rightarrow> Route_NthFlag (Route tsk) s
                  | Some fl \<Rightarrow> (case NthFlag fl of None \<Rightarrow> (\<lambda>i. None) | Some iter \<Rightarrow> iter s));
           finder = (case flags of
                     None \<Rightarrow> Route_FindFlag (Route tsk)
                   | Some fl \<Rightarrow> (\<lambda>name. Inr (FindFlag fl name)));
           toComplete = ToComplete tsk
       in
       if length toComplete = 0 \<or> toComplete = ''-'' then
         AddFlagNames_loop iterate (flag_names_all finder s descr) force 0 0 tsk1
       else if HasPrefix toComplete ''--'' then
         AddFlagNames_loop iterate (flag_names_long isSimilar finder s toComplete descr) force 0 0 tsk1
       else if HasPrefix toComplete ''-'' then
         AddFlagNames_loop iterate (flag_names_short finder s toComplete descr) force 0 0 tsk1
       else Some (Inr (0, tsk1)))"

subsection \<open>Sub-commands\<close>

definition CmdStateHidden :: "32 word" where "CmdStateHidden = 1"

text \<open>
  The items \<^verbatim>\<open>AddSubcmds\<close> adds for one child: its matching names. The list of
  children of a command holds no nil entry here.
\<close>

definition subcmd_items :: "similarity \<Rightarrow> string \<Rightarrow> bool \<Rightarrow> 's Cmd \<Rightarrow> CompItem list" where
  "subcmd_items isSimilar toComplete descr child =
    (if and (CmdState child) CmdStateHidden \<noteq> 0 then []
     else
       map (\<lambda>name. CompItem name (if descr then BriefUsage child else '''') CompKindText)
         (filter (\<lambda>name. \<not> (\<not> HasPrefix name toComplete \<and> \<not> isSimilar name toComplete))
            (entries (fst (Cut (Pattern child) '' '')) ''|'')))"

text \<open>
  \<^verbatim>\<open>AddSubcmds(force, cmd, descr)\<close>; with \<open>cmd = None\<close> (nil) the target of the route,
  which is nil for the empty route.
\<close>

definition AddSubcmds :: "similarity \<Rightarrow> bool \<Rightarrow> 's Cmd option \<Rightarrow> bool \<Rightarrow> 's CompTask
    \<Rightarrow> (int \<times> 's CompTask) res" where
  "AddSubcmds isSimilar force cmd descr tsk =
    (if \<not> force \<and>
        and (state tsk) (or CompStateHasSubcmds (or CompStateFailed CompStateDone)) \<noteq> 0
     then Inr (0, tsk)
     else
       let tsk1 = tsk\<lparr>state := or (state tsk) CompStateHasSubcmds\<rparr> in
       case (case cmd of Some c \<Rightarrow> Some c
             | None \<Rightarrow> if Route tsk = [] then None else Some (last (Route tsk))) of
         None \<Rightarrow> Inl PanicNilDereference
       | Some c \<Rightarrow>
           Inr (Add force
                  (concat (map (subcmd_items isSimilar (ToComplete tsk) descr) (Children c)))
                  tsk1))"

subsection \<open>The default suggestions\<close>

text \<open>
  \<^verbatim>\<open>AddDefault\<close>: the number of items added and the task afterwards; a panic when the
  route is empty (its target is nil); \<open>None\<close> when a flag iterator never ends.
\<close>

definition AddDefault :: "similarity \<Rightarrow> 's \<Rightarrow> 's CompTask \<Rightarrow> (int \<times> 's CompTask) res option" where
  "AddDefault isSimilar s tsk =
    (if Route tsk = [] then Some (Inl PanicNilDereference)
     else
       let (added0, tsk1) = consult (Completion (last (Route tsk))) tsk;
           (added1, tsk2) =
             (if and (want tsk1) CompStateHasFlagValues \<noteq> 0 then
                (case AddFlagValues False (FlagMissingValue tsk1) '''' False s tsk1 of
                   (n, t) \<Rightarrow> (added0 + n, t))
              else (added0, tsk1))
       in
       case (if and (want tsk2) CompStateHasFlagNames \<noteq> 0
             then AddFlagNames isSimilar False None True s tsk2
             else Some (Inr (0, tsk2))) of
         None \<Rightarrow> None
       | Some (Inl p) \<Rightarrow> Some (Inl p)
       | Some (Inr (n2, tsk3)) \<Rightarrow>
           if and (want tsk3) CompStateHasSubcmds \<noteq> 0 then
             (case AddSubcmds isSimilar False None True tsk3 of
                Inl p \<Rightarrow> Some (Inl p)
              | Inr (n3, tsk4) \<Rightarrow> Some (Inr (added1 + n2 + n3, tsk4)))
           else Some (Inr (added1 + n2, tsk3)))"

subsection \<open>Target resolution (cmd.go) and the initial task\<close>

text \<open>\<^verbatim>\<open>Cmd.Is\<close>: the text is one of the names in the pattern of the command.\<close>

definition Is :: "'s Cmd \<Rightarrow> string \<Rightarrow> bool" where
  "Is c s = (s \<in> set (entries (fst (Cut (Pattern c) '' '')) ''|''))"

text \<open>
  The route as the flag finder of \<^verbatim>\<open>ParseFlagsLowLevel\<close>. \<^verbatim>\<open>ResolveTarget\<close> parses with
  a route that holds a command already, so \<^verbatim>\<open>Route.FindFlag\<close> does not panic there.
\<close>

definition Route_finder :: "'s Route \<Rightarrow> string \<Rightarrow> 's Flag option" where
  "Route_finder route name = (case Route_FindFlag route name of Inr f \<Rightarrow> f | Inl p \<Rightarrow> None)"

text \<open>
  \<^verbatim>\<open>ResolveTarget\<close> is modelled for nil options and for commands that have no \<^verbatim>\<open>Help\<close>
  handler: an error of the parser is returned as it is, and a help argument becomes
  \<^verbatim>\<open>ErrHelpPending\<close>. The result is the route, the positional arguments, the arguments
  after the dash, the error, and the program state.
\<close>

type_synonym 's Resolved = "'s Route \<times> string list \<times> string list \<times> error option \<times> 's"

text \<open>The closure \<^verbatim>\<open>helpRequested\<close> when it returns true.\<close>

definition help_pending :: "string list \<Rightarrow> 's Route \<Rightarrow> string list \<Rightarrow> int \<Rightarrow> 's \<Rightarrow> 's Resolved res" where
  "help_pending args route pos at s =
    (if nat at < length args
     then Inr (route, pos, [], Some (ErrHelpPending (args ! nat at) at), s)
     else Inl PanicIndexOutOfRange)"

text \<open>The part of \<^verbatim>\<open>ResolveTarget\<close> after its loop.\<close>

definition ResolveTarget_finish :: "string list \<Rightarrow> 's Route \<Rightarrow> int \<Rightarrow> 's \<Rightarrow> 's Resolved res" where
  "ResolveTarget_finish args route offset s =
    (case ParseFlagsLowLevel args (Route_finder route) None offset True False True [] s of
       Inl p \<Rightarrow> Inl p
     | Inr r \<Rightarrow>
         if err r \<noteq> None then Inr (route, posArgs r, [], err r, final r)
         else if helpArgAt r \<ge> 0 then help_pending args route (posArgs r) (helpArgAt r) (final r)
         else Inr (route, posArgs r,
                   (if posDash r \<ge> 0 then drop (nat (posDash r + 1)) args else []),
                   None, final r))"

lemma child_smaller:
  assumes "child \<in> set (Children c)"
  shows "size child < size c"
proof (cases c)
  case (Cmd x1 x2 x3 x4 x5 x6 x7 x8)
  with assms have "child \<in> set x7" by simp
  then have "size child \<le> size_list size x7" by (rule size_list_estimation') simp
  with Cmd show ?thesis by simp
qed

lemma find_Some_member: "find P xs = Some x \<Longrightarrow> x \<in> set xs"
  by (induction xs) (auto split: if_splits)

text \<open>
  The loop of \<^verbatim>\<open>ResolveTarget\<close>,
  \<^verbatim>\<open>for route = route.Push(c); len(c.Children) != 0; route = route.Push(c)\<close>, entered with
  the route that ends in \<open>c\<close>.
\<close>

function ResolveTarget_loop :: "string list \<Rightarrow> 's Route \<Rightarrow> 's Cmd \<Rightarrow> int \<Rightarrow> 's \<Rightarrow> 's Resolved res" where
  "ResolveTarget_loop args route c offset s =
    (if length (Children c) = 0 then ResolveTarget_finish args route offset s
     else
       (case ParseFlagsLowLevel args (Route_finder route) None offset False True True [] s of
         Inl p \<Rightarrow> Inl p
       | Inr r \<Rightarrow>
           if err r \<noteq> None then Inr (route, [], [], err r, final r)
           else if \<not> foundPosArg r \<or> offset + nParsed r \<ge> int (length args) then
             (if helpArgAt r \<ge> 0 then help_pending args route [] (helpArgAt r) (final r)
              else ResolveTarget_finish args route (offset + nParsed r) (final r))
           else if offset + nParsed r < 0 then Inl PanicIndexOutOfRange
           else
             (case find (\<lambda>child. Is child (args ! nat (offset + nParsed r))) (Children c) of
               None \<Rightarrow>
                 (if helpArgAt r \<ge> 0 then help_pending args route [] (helpArgAt r) (final r)
                  else ResolveTarget_finish args route (offset + nParsed r) (final r))
             | Some child \<Rightarrow>
                 (if helpArgAt r \<ge> 0 then help_pending args route [] (helpArgAt r) (final r)
                  else ResolveTarget_loop args (route @ [child]) child (offset + nParsed r + 1)
                         (final r)))))"
  by pat_completeness auto
termination
  by (relation "measure (\<lambda>(args, route, c, offset, s). size c)")
     (auto dest!: find_Some_member intro: child_smaller)

definition ResolveTarget :: "'s Cmd \<Rightarrow> string list \<Rightarrow> 's \<Rightarrow> 's Resolved res" where
  "ResolveTarget c args s = ResolveTarget_loop args [c] c 0 s"

text \<open>
  Modelled from the Go standard library: the width that \<^verbatim>\<open>utf8.DecodeLastRuneInString\<close>
  reports for the last rune of a string.
\<close>

function DecodeLastRune_scan :: "string \<Rightarrow> int \<Rightarrow> int \<Rightarrow> int" where
  "DecodeLastRune_scan s lim start =
    (if start \<ge> lim then
       (if \<not> continuation (s ! nat start) then start else DecodeLastRune_scan s lim (start - 1))
     else start)"
  by pat_completeness auto
termination
  by (relation "measure (\<lambda>(s, lim, start). nat (start - lim + 1))") auto

definition DecodeLastRuneInString_width :: "string \<Rightarrow> nat" where
  "DecodeLastRuneInString_width s =
    (if length s = 0 then 0
     else if (of_char (last s) :: nat) < 0x80 then 1
     else
       let lim = max 0 (int (length s) - 4);
           start0 = DecodeLastRune_scan s lim (int (length s) - 2);
           start = (if start0 < 0 then 0 else nat start0);
           sz = DecodeRuneInString_width (drop start s)
       in if start + sz \<noteq> length s then 1 else sz)"

text \<open>
  The first switch of \<^verbatim>\<open>Init\<close>: the flag that the argument before the one to complete
  lacks a value for, if the parser stopped there.
\<close>

definition Init_missing_value :: "'s Route \<Rightarrow> error option \<Rightarrow> int \<Rightarrow> 's Flag option res" where
  "Init_missing_value route e stop =
    (case e of
       Some (ErrFlagValueMissing name at) \<Rightarrow>
         if at = stop - 1 then Route_FindFlag route name else Inr None
     | _ \<Rightarrow> Inr None)"

text \<open>The second switch of \<^verbatim>\<open>Init\<close>, on the text to complete.\<close>

definition Init_want :: "'s CompTask \<Rightarrow> 's CompTask res" where
  "Init_want tsk =
    (let toComplete = ToComplete tsk in
     if length toComplete = 0 then
       Inr (tsk\<lparr>want := or CompStateHasFlagNames CompStateHasSubcmds\<rparr>)
     else if \<not> HasPrefix toComplete ''-'' then Inr (tsk\<lparr>want := CompStateHasSubcmds\<rparr>)
     else if length toComplete > 1 then
       (case Cut toComplete ''='' of
          (flag, v, found) \<Rightarrow>
            if \<not> found then Inr (tsk\<lparr>want := or CompStateHasSubcmds CompStateHasFlagNames\<rparr>)
            else if length flag < 2 then Inl PanicIndexOutOfRange
            else if flag ! 1 \<noteq> CHR ''-'' then
              (case Route_FindFlag (Route tsk)
                      (drop (length flag - DecodeLastRuneInString_width flag) flag) of
                 Inl p \<Rightarrow> Inl p
               | Inr (Some f) \<Rightarrow>
                   Inr (tsk\<lparr>FlagMissingValue := Some f, ToComplete := v,
                            want := CompStateHasFlagValues\<rparr>)
               | Inr None \<Rightarrow> Inr (tsk\<lparr>want := CompStateHasSubcmds\<rparr>))
            else if length flag > 2 \<and> \<not> IsShorthand (drop 2 flag) then
              (case Route_FindFlag (Route tsk) (drop 2 flag) of
                 Inl p \<Rightarrow> Inl p
               | Inr (Some f) \<Rightarrow>
                   Inr (tsk\<lparr>FlagMissingValue := Some f, ToComplete := v,
                            want := CompStateHasFlagValues\<rparr>)
               | Inr None \<Rightarrow> Inr (tsk\<lparr>want := CompStateHasSubcmds\<rparr>))
            else Inr (tsk\<lparr>want := CompStateHasSubcmds\<rparr>))
     else Inr (tsk\<lparr>want := or CompStateHasSubcmds CompStateHasFlagNames\<rparr>))"

text \<open>
  \<^verbatim>\<open>Init(root, nil, at, args...)\<close> on the task \<open>tsk\<close>: the task afterwards and the program
  state that the parsed flags leave.
\<close>

definition Init :: "'s Cmd \<Rightarrow> int \<Rightarrow> string list \<Rightarrow> 's \<Rightarrow> 's CompTask \<Rightarrow> ('s CompTask \<times> 's) res" where
  "Init root at0 args0 s tsk =
    (let args = (if length args0 > 0 then drop 1 args0 else args0);
         at = (if length args0 > 0 \<and> at0 \<ge> 0 then at0 - 1 else at0);
         toComplete = (if at < int (length args) \<and> at \<ge> 0 then args ! nat at else '''');
         stop = (if at > int (length args) \<or> at < 0 then int (length args) else at)
     in case ResolveTarget root (take (nat stop) args) s of
       Inl p \<Rightarrow> Inl p
     | Inr (route, pos, dash, e, s') \<Rightarrow>
         (case Init_missing_value route e stop of
            Inl p \<Rightarrow> Inl p
          | Inr (Some f) \<Rightarrow>
              Inr (tsk\<lparr>ToComplete := toComplete, Route := route,
                       want := CompStateHasFlagValues, FlagMissingValue := Some f\<rparr>, s')
          | Inr None \<Rightarrow>
              (case Init_want (tsk\<lparr>ToComplete := toComplete, Route := route\<rparr>) of
                 Inl p \<Rightarrow> Inl p
               | Inr t \<Rightarrow> Inr (t, s'))))"

text \<open>The zero value of \<^verbatim>\<open>CompTask\<close>.\<close>

definition CompTask_zero :: "'s CompTask" where
  "CompTask_zero = \<lparr>result = [], ToComplete = '''', Route = [], FlagMissingValue = None,
                     state = 0, want = 0\<rparr>"

subsection \<open>What the functions leave of a task\<close>

text \<open>
  A task extends another one: items are appended to the result, state bits are
  added, and every other field is the same.
\<close>

definition extends :: "'s CompTask \<Rightarrow> 's CompTask \<Rightarrow> bool" where
  "extends t t' = (\<exists>st items. t' = t\<lparr>result := result t @ items, state := or (state t) st\<rparr>)"

lemma extends_refl: "extends t t"
  unfolding extends_def by (rule exI[of _ 0], rule exI[of _ "[]"]) simp

lemma extends_trans: "extends t t' \<Longrightarrow> extends t' t'' \<Longrightarrow> extends t t''"
  unfolding extends_def
proof (elim exE)
  fix st items st' items'
  assume a: "t' = t\<lparr>result := result t @ items, state := or (state t) st\<rparr>"
    and b: "t'' = t'\<lparr>result := result t' @ items', state := or (state t') st'\<rparr>"
  have "t'' = t\<lparr>result := result t @ (items @ items'), state := or (state t) (or st st')\<rparr>"
    by (simp add: a b ac_simps)
  then show "\<exists>st items. t'' = t\<lparr>result := result t @ items, state := or (state t) st\<rparr>"
    by blast
qed

lemma extends_state: "extends t (t\<lparr>state := or (state t) st\<rparr>)"
  unfolding extends_def by (rule exI[of _ st], rule exI[of _ "[]"]) simp

lemma extends_result: "extends t (t\<lparr>result := result t @ items\<rparr>)"
  unfolding extends_def by (rule exI[of _ 0], rule exI[of _ items]) simp

lemma extends_frame:
  assumes "extends t t'"
  shows "Route t' = Route t" and "want t' = want t" and "ToComplete t' = ToComplete t"
    and "FlagMissingValue t' = FlagMissingValue t"
  using assms unfolding extends_def by auto

lemma or_and_nonzero: "and a m \<noteq> 0 \<Longrightarrow> and (or a b) m \<noteq> (0 :: 32 word)"
  by (simp add: bit.conj_disj_distrib2 or_eq_0_iff)

lemma extends_bits:
  assumes "extends t t'" and "and (state t) m \<noteq> 0"
  shows "and (state t') m \<noteq> 0"
  using assms unfolding extends_def by (auto simp add: or_and_nonzero)

lemma Add_extends: "Add force its t = (n, t') \<Longrightarrow> extends t t'"
  by (auto simp add: Add_def extends_refl extends_result split: if_splits)

lemma AddMatched_extends: "AddMatched force its t = (n, t') \<Longrightarrow> extends t t'"
  by (auto simp add: AddMatched_def extends_refl extends_result split: if_splits)

lemma AddGlobs_extends:
  assumes "AddGlobs has kind force globs t = (n, t')"
  shows "extends t t'"
proof (cases "\<not> force \<and> and (state t) (or has (or CompStateFailed CompStateDone)) \<noteq> 0")
  case True
  with assms show ?thesis by (simp add: AddGlobs_def extends_refl)
next
  case False
  let ?t1 = "t\<lparr>state := or (state t) has\<rparr>"
  obtain a t2 where first:
    "Add force (map (\<lambda>glob. CompItem glob '''' kind) (filter (\<lambda>glob. glob \<noteq> '''') globs)) ?t1
      = (a, t2)"
    by (cases "Add force (map (\<lambda>glob. CompItem glob '''' kind)
      (filter (\<lambda>glob. glob \<noteq> '''') globs)) ?t1") auto
  have e2: "extends t t2"
    using extends_trans[OF extends_state Add_extends[OF first]] .
  show ?thesis
  proof (cases "a = 0")
    case True
    with assms False first have "Add force [CompItem '''' '''' kind] t2 = (n, t')"
      by (simp add: AddGlobs_def Let_def)
    from extends_trans[OF e2 Add_extends[OF this]] show ?thesis .
  next
    case nz: False
    with assms False first have "t' = t2" by (simp add: AddGlobs_def Let_def)
    with e2 show ?thesis by simp
  qed
qed

lemma Suggest_extends: "Suggest x t = (n, st, t') \<Longrightarrow> extends t t'"
proof (cases x)
  case CompActionDisable
  assume "Suggest x t = (n, st, t')"
  with CompActionDisable show ?thesis by (auto simp add: extends_state)
next
  case (CompActionStatic suggestions w st0)
  assume "Suggest x t = (n, st, t')"
  with CompActionStatic show ?thesis
    by (auto simp add: extends_refl split: if_splits prod.splits dest: AddMatched_extends)
next
  case CompActionDirs
  assume "Suggest x t = (n, st, t')"
  with CompActionDirs show ?thesis
    by (auto simp add: AddDirs_def split: prod.splits dest: AddGlobs_extends)
next
  case CompActionFiles
  assume "Suggest x t = (n, st, t')"
  with CompActionFiles show ?thesis
    by (auto simp add: AddFiles_def split: prod.splits dest: AddGlobs_extends)
qed

lemma consult_extends:
  assumes "consult provider t = (n, t')"
  shows "extends t t'"
proof (cases provider)
  case None
  with assms show ?thesis by (simp add: consult_def extends_refl)
next
  case (Some x)
  obtain m st t1 where s: "Suggest x t = (m, st, t1)" by (cases "Suggest x t") auto
  with assms Some have "t' = t1\<lparr>state := or (state t1) st\<rparr>" by (simp add: consult_def)
  with extends_trans[OF Suggest_extends[OF s] extends_state] show ?thesis by simp
qed

lemma AddFlagValues_extends:
  assumes "AddFlagValues force flagp def addDefaults s t = (n, t')"
  shows "extends t t'"
proof (cases flagp)
  case None
  with assms show ?thesis by (simp add: AddFlagValues_def extends_refl)
next
  case (Some flag)
  show ?thesis
  proof (cases "\<not> force \<and>
      and (state t) (or CompStateHasFlagValues (or CompStateFailed CompStateDone)) \<noteq> 0")
    case True
    with assms Some show ?thesis by (simp add: AddFlagValues_def extends_refl)
  next
    case False
    let ?t1 = "t\<lparr>state := or (state t) CompStateHasFlagValues\<rparr>"
    obtain a t2 where c: "consult (flag_CompAction flag) ?t1 = (a, t2)"
      by (cases "consult (flag_CompAction flag) ?t1") auto
    have e2: "extends t t2" using extends_trans[OF extends_state consult_extends[OF c]] .
    show ?thesis
    proof (cases addDefaults)
      case nd: False
      with assms Some False c have "t' = t2" by (simp add: AddFlagValues_def)
      with e2 show ?thesis by simp
    next
      case True
      let ?items = "(if length def = 0 then []
                     else default_items (ValueChanged (State flag s)) def) @ deduced_items flag s"
      obtain m t3 where am: "AddMatched force ?items t2 = (m, t3)"
        by (cases "AddMatched force ?items t2") auto
      with assms Some False c True have "t' = t3" by (simp add: AddFlagValues_def)
      with extends_trans[OF e2 AddMatched_extends[OF am]] show ?thesis by simp
    qed
  qed
qed

lemma guard_set:
  "b \<noteq> 0 \<Longrightarrow> and (or a b) (or b c) \<noteq> (0 :: 32 word)"
  by (simp add: bit.conj_disj_distrib or_eq_0_iff)

lemma AddFlagNames_loop_extends_aux:
  assumes "AddFlagNames_loop iterate items force i added tsk = Some y"
  shows "case y of Inl p \<Rightarrow> True | Inr (n, t') \<Rightarrow> extends tsk t'"
proof (rule AddFlagNames_loop.raw_induct
    [where P = "\<lambda>iterate items force i added tsk y.
                  case y of Inl p \<Rightarrow> True | Inr (n, t') \<Rightarrow> extends tsk t'", OF _ assms],
    goal_cases)
  case (1 loop iterate items force i added tsk y)
  show ?case
  proof (cases "iterate i")
    case None
    with 1(2) show ?thesis by (auto simp add: extends_refl)
  next
    case (Some info)
    show ?thesis
    proof (cases "items info")
      case (Inl p)
      with Some 1(2) show ?thesis by auto
    next
      case (Inr its)
      obtain m t1 where a: "Add force its tsk = (m, t1)" by (cases "Add force its tsk") auto
      with Some Inr 1(2) have "loop iterate items force (i + 1) (added + m) t1 = Some y"
        by simp
      from 1(1)[OF this] extends_trans[OF Add_extends[OF a]] show ?thesis
        by (auto split: sum.splits prod.splits)
    qed
  qed
qed

lemma AddFlagNames_loop_extends:
  "AddFlagNames_loop iterate items force i added tsk = Some (Inr (n, t')) \<Longrightarrow> extends tsk t'"
  by (drule AddFlagNames_loop_extends_aux) simp

lemma AddFlagNames_extends:
  assumes "AddFlagNames isSimilar force flags descr s t = Some (Inr (n, t'))"
  shows "extends t t'"
proof (cases "\<not> force \<and>
    and (state t) (or CompStateHasFlagNames (or CompStateFailed CompStateDone)) \<noteq> 0")
  case True
  with assms show ?thesis by (simp add: AddFlagNames_def extends_refl)
next
  case False
  with assms have "extends (t\<lparr>state := or (state t) CompStateHasFlagNames\<rparr>) t'"
    by (auto simp add: AddFlagNames_def Let_def extends_refl split: if_splits
        dest: AddFlagNames_loop_extends)
  with extends_trans[OF extends_state] show ?thesis by blast
qed

lemma AddSubcmds_extends:
  assumes "AddSubcmds isSimilar force cmd descr t = Inr (n, t')"
  shows "extends t t'"
proof (cases "\<not> force \<and>
    and (state t) (or CompStateHasSubcmds (or CompStateFailed CompStateDone)) \<noteq> 0")
  case True
  with assms show ?thesis by (simp add: AddSubcmds_def extends_refl)
next
  case False
  with assms have "extends (t\<lparr>state := or (state t) CompStateHasSubcmds\<rparr>) t'"
    by (auto simp add: AddSubcmds_def Let_def split: if_splits option.splits
        dest: Add_extends)
  with extends_trans[OF extends_state] show ?thesis by blast
qed

text \<open>After a call that returned, the state check at the head of the function fails.\<close>

lemma AddFlagValues_closes:
  assumes "AddFlagValues False (Some flag) def addDefaults s t = (n, t')"
  shows "and (state t') (or CompStateHasFlagValues (or CompStateFailed CompStateDone)) \<noteq> 0"
proof (cases "and (state t) (or CompStateHasFlagValues (or CompStateFailed CompStateDone)) \<noteq> 0")
  case True
  from extends_bits[OF AddFlagValues_extends[OF assms] True] show ?thesis .
next
  case False
  let ?t1 = "t\<lparr>state := or (state t) CompStateHasFlagValues\<rparr>"
  obtain a t2 where c: "consult (flag_CompAction flag) ?t1 = (a, t2)"
    by (cases "consult (flag_CompAction flag) ?t1") auto
  have set1: "and (state ?t1) (or CompStateHasFlagValues (or CompStateFailed CompStateDone)) \<noteq> 0"
    by (simp add: guard_set CompStateHasFlagValues_def)
  have set2: "and (state t2) (or CompStateHasFlagValues (or CompStateFailed CompStateDone)) \<noteq> 0"
    using extends_bits[OF consult_extends[OF c] set1] .
  show ?thesis
  proof (cases addDefaults)
    case nd: False
    with assms False c have "t' = t2" by (simp add: AddFlagValues_def)
    with set2 show ?thesis by simp
  next
    case True
    let ?items = "(if length def = 0 then []
                   else default_items (ValueChanged (State flag s)) def) @ deduced_items flag s"
    obtain m t3 where am: "AddMatched False ?items t2 = (m, t3)"
      by (cases "AddMatched False ?items t2") auto
    with assms False c True have "t' = t3" by (simp add: AddFlagValues_def)
    with extends_bits[OF AddMatched_extends[OF am] set2] show ?thesis by simp
  qed
qed

lemma AddFlagNames_closes:
  assumes "AddFlagNames isSimilar False flags descr s t = Some (Inr (n, t'))"
  shows "and (state t') (or CompStateHasFlagNames (or CompStateFailed CompStateDone)) \<noteq> 0"
proof (cases "and (state t) (or CompStateHasFlagNames (or CompStateFailed CompStateDone)) \<noteq> 0")
  case True
  from extends_bits[OF AddFlagNames_extends[OF assms] True] show ?thesis .
next
  case False
  let ?t1 = "t\<lparr>state := or (state t) CompStateHasFlagNames\<rparr>"
  have set1: "and (state ?t1) (or CompStateHasFlagNames (or CompStateFailed CompStateDone)) \<noteq> 0"
    by (simp add: guard_set CompStateHasFlagNames_def)
  from assms False have "extends ?t1 t'"
    by (auto simp add: AddFlagNames_def Let_def extends_refl split: if_splits
        dest: AddFlagNames_loop_extends)
  from extends_bits[OF this set1] show ?thesis .
qed

lemma AddSubcmds_closes:
  assumes "AddSubcmds isSimilar False cmd descr t = Inr (n, t')"
  shows "and (state t') (or CompStateHasSubcmds (or CompStateFailed CompStateDone)) \<noteq> 0"
proof (cases "and (state t) (or CompStateHasSubcmds (or CompStateFailed CompStateDone)) \<noteq> 0")
  case True
  from extends_bits[OF AddSubcmds_extends[OF assms] True] show ?thesis .
next
  case False
  let ?t1 = "t\<lparr>state := or (state t) CompStateHasSubcmds\<rparr>"
  have set1: "and (state ?t1) (or CompStateHasSubcmds (or CompStateFailed CompStateDone)) \<noteq> 0"
    by (simp add: guard_set CompStateHasSubcmds_def)
  from assms False have "extends ?t1 t'"
    by (auto simp add: AddSubcmds_def Let_def split: if_splits option.splits
        dest: Add_extends)
  from extends_bits[OF this set1] show ?thesis .
qed

text \<open>The steps of a call of \<^verbatim>\<open>AddDefault\<close> that returned.\<close>

lemma AddDefault_steps:
  assumes "AddDefault isSimilar s t = Some (Inr (n, t'))"
  obtains a0 u1 a1 u2 n2 u3 where
    "Route t \<noteq> []"
    "consult (Completion (last (Route t))) t = (a0, u1)"
    "if and (want u1) CompStateHasFlagValues \<noteq> 0
     then AddFlagValues False (FlagMissingValue u1) '''' False s u1 = (a1, u2)
     else u2 = u1"
    "if and (want u2) CompStateHasFlagNames \<noteq> 0
     then AddFlagNames isSimilar False None True s u2 = Some (Inr (n2, u3))
     else u3 = u2"
    "if and (want u3) CompStateHasSubcmds \<noteq> 0
     then \<exists>n3. AddSubcmds isSimilar False None True u3 = Inr (n3, t')
     else t' = u3"
proof -
  from assms have r: "Route t \<noteq> []" by (auto simp add: AddDefault_def)
  obtain a0 u1 where c: "consult (Completion (last (Route t))) t = (a0, u1)"
    by (cases "consult (Completion (last (Route t))) t") auto
  obtain a1 u2 where v:
    "(if and (want u1) CompStateHasFlagValues \<noteq> 0
      then AddFlagValues False (FlagMissingValue u1) '''' False s u1
      else (a0, u1)) = (a1, u2)"
    by (cases "if and (want u1) CompStateHasFlagValues \<noteq> 0
      then AddFlagValues False (FlagMissingValue u1) '''' False s u1
      else (a0, u1)") auto
  let ?names = "if and (want u2) CompStateHasFlagNames \<noteq> 0
    then AddFlagNames isSimilar False None True s u2 else Some (Inr (0, u2))"
  have unfolded: "AddDefault isSimilar s t =
    (case ?names of
       None \<Rightarrow> None
     | Some (Inl p) \<Rightarrow> Some (Inl p)
     | Some (Inr (n2, tsk3)) \<Rightarrow>
         if and (want tsk3) CompStateHasSubcmds \<noteq> 0 then
           (case AddSubcmds isSimilar False None True tsk3 of
              Inl p \<Rightarrow> Some (Inl p)
            | Inr (n3, tsk4) \<Rightarrow>
                Some (Inr ((if and (want u1) CompStateHasFlagValues \<noteq> 0 then a0 + a1 else a0)
                           + n2 + n3, tsk4)))
         else Some (Inr ((if and (want u1) CompStateHasFlagValues \<noteq> 0 then a0 + a1 else a0)
                         + n2, tsk3)))"
    using r c v by (auto simp add: AddDefault_def split: if_splits prod.splits)
  with assms obtain n2 u3 where nm: "?names = Some (Inr (n2, u3))"
    by (cases ?names) (auto split: sum.splits)
  from unfolded nm assms have sub:
    "if and (want u3) CompStateHasSubcmds \<noteq> 0
     then \<exists>n3. AddSubcmds isSimilar False None True u3 = Inr (n3, t')
     else t' = u3"
    by (auto split: if_splits sum.splits)
  from v have v': "if and (want u1) CompStateHasFlagValues \<noteq> 0
     then AddFlagValues False (FlagMissingValue u1) '''' False s u1 = (a1, u2)
     else u2 = u1"
    by (auto split: if_splits)
  from nm have nm': "if and (want u2) CompStateHasFlagNames \<noteq> 0
     then AddFlagNames isSimilar False None True s u2 = Some (Inr (n2, u3))
     else u3 = u2"
    by (auto split: if_splits)
  from that[OF r c v' nm' sub] show thesis .
qed

text \<open>
  A call of \<^verbatim>\<open>AddDefault\<close> on a task whose wanted categories are closed after the
  provider of the target command: only that provider is consulted.
\<close>

lemma AddDefault_all_closed:
  assumes r: "Route t \<noteq> []"
    and c: "consult (Completion (last (Route t))) t = (b, v)"
    and fv: "and (want t) CompStateHasFlagValues \<noteq> 0 \<Longrightarrow>
      FlagMissingValue t = None \<or>
      and (state v) (or CompStateHasFlagValues (or CompStateFailed CompStateDone)) \<noteq> 0"
    and fn: "and (want t) CompStateHasFlagNames \<noteq> 0 \<Longrightarrow>
      and (state v) (or CompStateHasFlagNames (or CompStateFailed CompStateDone)) \<noteq> 0"
    and sc: "and (want t) CompStateHasSubcmds \<noteq> 0 \<Longrightarrow>
      and (state v) (or CompStateHasSubcmds (or CompStateFailed CompStateDone)) \<noteq> 0"
  shows "AddDefault isSimilar s t = Some (Inr (b, v))"
proof -
  note fr = extends_frame[OF consult_extends[OF c]]
  have novalues: "and (want v) CompStateHasFlagValues \<noteq> 0 \<Longrightarrow>
      AddFlagValues False (FlagMissingValue v) '''' False s v = (0, v)"
    using fv fr by (auto simp add: AddFlagValues_def split: option.splits)
  have nonames: "and (want v) CompStateHasFlagNames \<noteq> 0 \<Longrightarrow>
      AddFlagNames isSimilar False None True s v = Some (Inr (0, v))"
    using fn fr by (simp add: AddFlagNames_def)
  have nosubs: "and (want v) CompStateHasSubcmds \<noteq> 0 \<Longrightarrow>
      AddSubcmds isSimilar False None True v = Inr (0, v)"
    using sc fr by (simp add: AddSubcmds_def)
  show ?thesis
    using r c novalues nonames nosubs by (simp add: AddDefault_def)
qed

lemma AddDefault_extends:
  assumes "AddDefault isSimilar s t = Some (Inr (n, t'))"
  shows "extends t t'" and "extends (snd (consult (Completion (last (Route t))) t)) t'"
proof -
  from assms obtain a0 u1 a1 u2 n2 u3 where
    c: "consult (Completion (last (Route t))) t = (a0, u1)"
    and v: "if and (want u1) CompStateHasFlagValues \<noteq> 0
     then AddFlagValues False (FlagMissingValue u1) '''' False s u1 = (a1, u2)
     else u2 = u1"
    and nm: "if and (want u2) CompStateHasFlagNames \<noteq> 0
     then AddFlagNames isSimilar False None True s u2 = Some (Inr (n2, u3))
     else u3 = u2"
    and sub: "if and (want u3) CompStateHasSubcmds \<noteq> 0
     then \<exists>n3. AddSubcmds isSimilar False None True u3 = Inr (n3, t')
     else t' = u3"
    by (rule AddDefault_steps)
  have e1: "extends t u1" using consult_extends[OF c] .
  have e2: "extends u1 u2"
    using v by (auto simp add: extends_refl dest: AddFlagValues_extends split: if_splits)
  have e3: "extends u2 u3"
    using nm by (auto simp add: extends_refl dest: AddFlagNames_extends split: if_splits)
  have e4: "extends u3 t'"
    using sub by (auto simp add: extends_refl dest: AddSubcmds_extends split: if_splits)
  from extends_trans[OF extends_trans[OF extends_trans[OF e1 e2] e3] e4]
  show "extends t t'" .
  from extends_trans[OF extends_trans[OF e2 e3] e4] c
  show "extends (snd (consult (Completion (last (Route t))) t)) t'" by simp
qed

lemma AddDefault_closes:
  assumes "AddDefault isSimilar s t = Some (Inr (n, t'))"
  shows "and (want t) CompStateHasFlagValues \<noteq> 0 \<Longrightarrow>
      FlagMissingValue t = None \<or>
      and (state t') (or CompStateHasFlagValues (or CompStateFailed CompStateDone)) \<noteq> 0"
    and "and (want t) CompStateHasFlagNames \<noteq> 0 \<Longrightarrow>
      and (state t') (or CompStateHasFlagNames (or CompStateFailed CompStateDone)) \<noteq> 0"
    and "and (want t) CompStateHasSubcmds \<noteq> 0 \<Longrightarrow>
      and (state t') (or CompStateHasSubcmds (or CompStateFailed CompStateDone)) \<noteq> 0"
proof -
  from assms obtain a0 u1 a1 u2 n2 u3 where
    c: "consult (Completion (last (Route t))) t = (a0, u1)"
    and v: "if and (want u1) CompStateHasFlagValues \<noteq> 0
     then AddFlagValues False (FlagMissingValue u1) '''' False s u1 = (a1, u2)
     else u2 = u1"
    and nm: "if and (want u2) CompStateHasFlagNames \<noteq> 0
     then AddFlagNames isSimilar False None True s u2 = Some (Inr (n2, u3))
     else u3 = u2"
    and sub: "if and (want u3) CompStateHasSubcmds \<noteq> 0
     then \<exists>n3. AddSubcmds isSimilar False None True u3 = Inr (n3, t')
     else t' = u3"
    by (rule AddDefault_steps)
  have e1: "extends t u1" using consult_extends[OF c] .
  have e2: "extends u1 u2"
    using v by (auto simp add: extends_refl dest: AddFlagValues_extends split: if_splits)
  have e3: "extends u2 u3"
    using nm by (auto simp add: extends_refl dest: AddFlagNames_extends split: if_splits)
  have e4: "extends u3 t'"
    using sub by (auto simp add: extends_refl dest: AddSubcmds_extends split: if_splits)
  note f1 = extends_frame[OF e1] and f2 = extends_frame[OF extends_trans[OF e1 e2]]
    and f3 = extends_frame[OF extends_trans[OF extends_trans[OF e1 e2] e3]]
  show "and (want t) CompStateHasFlagValues \<noteq> 0 \<Longrightarrow>
      FlagMissingValue t = None \<or>
      and (state t') (or CompStateHasFlagValues (or CompStateFailed CompStateDone)) \<noteq> 0"
  proof -
    assume w: "and (want t) CompStateHasFlagValues \<noteq> 0"
    show ?thesis
    proof (cases "FlagMissingValue t")
      case None
      then show ?thesis by simp
    next
      case (Some flag)
      with v w f1 have "AddFlagValues False (Some flag) '''' False s u1 = (a1, u2)" by simp
      from AddFlagValues_closes[OF this]
      have "and (state u2) (or CompStateHasFlagValues (or CompStateFailed CompStateDone)) \<noteq> 0" .
      from extends_bits[OF extends_trans[OF e3 e4] this] show ?thesis by simp
    qed
  qed
  show "and (want t) CompStateHasFlagNames \<noteq> 0 \<Longrightarrow>
      and (state t') (or CompStateHasFlagNames (or CompStateFailed CompStateDone)) \<noteq> 0"
  proof -
    assume w: "and (want t) CompStateHasFlagNames \<noteq> 0"
    with nm f2 have "AddFlagNames isSimilar False None True s u2 = Some (Inr (n2, u3))" by simp
    from AddFlagNames_closes[OF this]
    have "and (state u3) (or CompStateHasFlagNames (or CompStateFailed CompStateDone)) \<noteq> 0" .
    from extends_bits[OF e4 this] show ?thesis .
  qed
  show "and (want t) CompStateHasSubcmds \<noteq> 0 \<Longrightarrow>
      and (state t') (or CompStateHasSubcmds (or CompStateFailed CompStateDone)) \<noteq> 0"
  proof -
    assume w: "and (want t) CompStateHasSubcmds \<noteq> 0"
    with sub f3 obtain n3 where "AddSubcmds isSimilar False None True u3 = Inr (n3, t')"
      by auto
    from AddSubcmds_closes[OF this] show ?thesis .
  qed
qed

subsection \<open>A second call of \<^verbatim>\<open>AddDefault\<close>\<close>

text \<open>
  What the provider of the target command adds when it is consulted again: a
  \<^verbatim>\<open>CompActionStatic\<close> that applies to the task adds its matching suggestions unless
  the task is failed or done; every other built-in provider adds nothing.
\<close>

definition readded :: "CompAction option \<Rightarrow> 's CompTask \<Rightarrow> CompItem list" where
  "readded provider t =
    (case provider of
       Some (CompActionStatic suggestions w st) \<Rightarrow>
         if (w \<noteq> 0 \<and> and (want t) w = 0)
            \<or> and (state t) (or CompStateFailed CompStateDone) \<noteq> 0
         then []
         else filter (\<lambda>item. HasPrefix (Value item) (ToComplete t)) suggestions
     | _ \<Rightarrow> [])"

lemma AddGlobs_closes:
  assumes "AddGlobs has kind False globs t = (n, t')" and "has \<noteq> 0"
  shows "and (state t') (or has (or CompStateFailed CompStateDone)) \<noteq> 0"
proof (cases "and (state t) (or has (or CompStateFailed CompStateDone)) \<noteq> 0")
  case True
  from extends_bits[OF AddGlobs_extends[OF assms(1)] True] show ?thesis .
next
  case False
  let ?t1 = "t\<lparr>state := or (state t) has\<rparr>"
  have set1: "and (state ?t1) (or has (or CompStateFailed CompStateDone)) \<noteq> 0"
    using assms(2) by (simp add: guard_set)
  obtain a t2 where first:
    "Add False (map (\<lambda>glob. CompItem glob '''' kind) (filter (\<lambda>glob. glob \<noteq> '''') globs)) ?t1
      = (a, t2)"
    by (cases "Add False (map (\<lambda>glob. CompItem glob '''' kind)
      (filter (\<lambda>glob. glob \<noteq> '''') globs)) ?t1") auto
  have "extends ?t1 t'"
  proof (cases "a = 0")
    case True
    with assms False first have "Add False [CompItem '''' '''' kind] t2 = (n, t')"
      by (simp add: AddGlobs_def Let_def)
    from extends_trans[OF Add_extends[OF first] Add_extends[OF this]] show ?thesis .
  next
    case nz: False
    with assms False first have "t' = t2" by (simp add: AddGlobs_def Let_def)
    with Add_extends[OF first] show ?thesis by simp
  qed
  from extends_bits[OF this set1] show ?thesis .
qed

lemma AddGlobs_closed:
  "and (state t) (or has (or CompStateFailed CompStateDone)) \<noteq> 0 \<Longrightarrow>
    AddGlobs has kind False globs t = (0, t)"
  by (simp add: AddGlobs_def)

lemma consult_again:
  assumes first: "consult provider t = (a, u)" and e: "extends u t1"
  shows "fst (consult provider t1) = int (length (readded provider t1))
    \<and> result (snd (consult provider t1)) = result t1 @ readded provider t1"
proof (cases provider)
  case None
  then show ?thesis by (simp add: consult_def readded_def)
next
  case (Some x)
  show ?thesis
  proof (cases x)
    case CompActionDisable
    with Some show ?thesis by (simp add: consult_def readded_def)
  next
    case (CompActionStatic suggestions w st)
    with Some show ?thesis by (simp add: consult_def readded_def AddMatched_def)
  next
    case CompActionDirs
    obtain m u' where g: "AddGlobs CompStateHasDirs CompKindDirs False [] t = (m, u')"
      by (cases "AddGlobs CompStateHasDirs CompKindDirs False [] t") auto
    with first Some CompActionDirs have "extends u' u"
      by (auto simp add: consult_def AddDirs_def extends_refl)
    from extends_bits[OF extends_trans[OF this e]
        AddGlobs_closes[OF g]]
    have "and (state t1) (or CompStateHasDirs (or CompStateFailed CompStateDone)) \<noteq> 0"
      by (simp add: CompStateHasDirs_def)
    from AddGlobs_closed[OF this] Some CompActionDirs show ?thesis
      by (simp add: consult_def readded_def AddDirs_def)
  next
    case CompActionFiles
    obtain m u' where g: "AddGlobs CompStateHasFiles CompKindFiles False [] t = (m, u')"
      by (cases "AddGlobs CompStateHasFiles CompKindFiles False [] t") auto
    with first Some CompActionFiles have "extends u' u"
      by (auto simp add: consult_def AddFiles_def extends_refl)
    from extends_bits[OF extends_trans[OF this e]
        AddGlobs_closes[OF g]]
    have "and (state t1) (or CompStateHasFiles (or CompStateFailed CompStateDone)) \<noteq> 0"
      by (simp add: CompStateHasFiles_def)
    from AddGlobs_closed[OF this] Some CompActionFiles show ?thesis
      by (simp add: consult_def readded_def AddFiles_def)
  qed
qed

text \<open>
  A root command without flags and sub-commands whose completion provider has one
  static suggestion for every task, and the tasks of two calls of \<^verbatim>\<open>AddDefault\<close> after
  \<^verbatim>\<open>Init(root, nil, 1, "app")\<close>, the completion of the empty argument after \<open>app\<close>.
\<close>

definition example_static_root :: "unit Cmd" where
  "example_static_root =
    Cmd ''app'' '''' None None None
      (Some (CompActionStatic [CompItem ''aha'' '''' CompKindText] 0 0)) [] 0"

definition example_fresh :: "unit CompTask" where
  "example_fresh =
    \<lparr>result = [], ToComplete = '''', Route = [example_static_root], FlagMissingValue = None,
     state = 0, want = or CompStateHasFlagNames CompStateHasSubcmds\<rparr>"

definition example_once :: "unit CompTask" where
  "example_once =
    example_fresh\<lparr>result := [CompItem ''aha'' '''' CompKindText],
                  state := or CompStateHasFlagNames CompStateHasSubcmds\<rparr>"

definition example_twice :: "unit CompTask" where
  "example_twice =
    example_once\<lparr>result := [CompItem ''aha'' '''' CompKindText,
                             CompItem ''aha'' '''' CompKindText]\<rparr>"

lemma ParseFlagsLowLevel_no_args:
  "ParseFlagsLowLevel [] flags opts 0 a b c pos s =
    Inr \<lparr>nParsed = 0, posDash = - 1, foundPosArg = False, posArgs = pos, helpArgAt = - 1,
         err = None, final = s\<rparr>"
  by (simp add: ParseFlagsLowLevel_def)

lemma ResolveTarget_leaf_no_args:
  "Children c = [] \<Longrightarrow> ResolveTarget c [] s = Inr ([c], [], [], None, s)"
  by (simp add: ResolveTarget_def ResolveTarget_finish_def ParseFlagsLowLevel_no_args)

lemma Init_example: "Init example_static_root 1 [''app''] () CompTask_zero = Inr (example_fresh, ())"
  by (simp add: Init_def Let_def ResolveTarget_leaf_no_args example_static_root_def
      Init_missing_value_def Init_want_def CompTask_zero_def example_fresh_def)

lemma Route_NthFlag_no_flags:
  "Flags c = None \<Longrightarrow> LocalFlags c = None \<Longrightarrow> Route_NthFlag [c] s i = None"
  by (simp add: Route_NthFlag_def NthFlag_in_def numeral_eq_Suc)

lemma AddFlagNames_loop_none:
  "iterate i = None \<Longrightarrow> AddFlagNames_loop iterate items force i added tsk = Some (Inr (added, tsk))"
  by (subst AddFlagNames_loop.simps) simp

lemma example_first_call:
  "AddDefault isSimilar () example_fresh = Some (Inr (1, example_once))"
  by (simp add: AddDefault_def example_fresh_def example_once_def example_static_root_def
      consult_def AddMatched_def HasPrefix_def AddFlagNames_def AddSubcmds_def Add_def
      AddFlagNames_loop_none Route_NthFlag_no_flags
      CompStateHasFlagNames_def CompStateHasSubcmds_def CompStateHasFlagValues_def
      CompStateFailed_def CompStateDone_def)

lemma example_second_call:
  "AddDefault isSimilar () example_once = Some (Inr (1, example_twice))"
  by (simp add: AddDefault_def example_fresh_def example_once_def example_twice_def
      example_static_root_def
      consult_def AddMatched_def HasPrefix_def AddFlagNames_def AddSubcmds_def Add_def
      CompStateHasFlagNames_def CompStateHasSubcmds_def CompStateHasFlagValues_def
      CompStateFailed_def CompStateDone_def)

text \<open>
  Claim C9 fails on the code. \<^verbatim>\<open>AddDefault\<close> consults the completion provider of the
  target command before every state check and on every call. For the root command above and
  the task that \<^verbatim>\<open>Init\<close> makes of the zero task, the first call adds the suggestion of
  the provider, and the second call adds it again: one more item, not zero.
\<close>

theorem AddDefault_twice_counterexample:
  "\<forall>isSimilar.
     Init example_static_root 1 [''app''] () CompTask_zero = Inr (example_fresh, ())
     \<and> AddDefault isSimilar () example_fresh = Some (Inr (1, example_once))
     \<and> AddDefault isSimilar () example_once = Some (Inr (1, example_twice))
     \<and> result example_once = [CompItem ''aha'' '''' CompKindText]
     \<and> result example_twice = [CompItem ''aha'' '''' CompKindText,
                                 CompItem ''aha'' '''' CompKindText]"
  by (intro allI conjI Init_example example_first_call example_second_call)
     (simp_all add: example_once_def example_twice_def)

text \<open>
  Claim C9, as amended. After a call of \<^verbatim>\<open>AddDefault\<close> that returned, a second call
  returns too and does what consulting the completion provider of the target command
  does, and nothing else: the state bits suppress every other addition. The items it
  adds are those of \<open>readded\<close>: none when the target command has no provider or a
  provider other than \<^verbatim>\<open>CompActionStatic\<close>.
\<close>

theorem AddDefault_second_call_consults_target_only:
  assumes "AddDefault isSimilar s tsk = Some (Inr (n1, t1))"
  shows "AddDefault isSimilar s t1 = Some (Inr (consult (Completion (last (Route tsk))) t1))
    \<and> fst (consult (Completion (last (Route tsk))) t1)
        = int (length (readded (Completion (last (Route tsk))) t1))
    \<and> result (snd (consult (Completion (last (Route tsk))) t1))
        = result t1 @ readded (Completion (last (Route tsk))) t1"
proof -
  let ?provider = "Completion (last (Route tsk))"
  from assms have r: "Route tsk \<noteq> []" by (auto simp add: AddDefault_def)
  note e = AddDefault_extends[OF assms]
  note fr = extends_frame[OF e(1)]
  note closed = AddDefault_closes[OF assms]
  obtain b v where c: "consult ?provider t1 = (b, v)" by (cases "consult ?provider t1") auto
  note e2 = consult_extends[OF c]
  have second: "AddDefault isSimilar s t1 = Some (Inr (b, v))"
  proof (rule AddDefault_all_closed)
    show "Route t1 \<noteq> []" using r fr by simp
    show "consult (Completion (last (Route t1))) t1 = (b, v)" using c fr by simp
    show "FlagMissingValue t1 = None \<or>
      and (state v) (or CompStateHasFlagValues (or CompStateFailed CompStateDone)) \<noteq> 0"
      if "and (want t1) CompStateHasFlagValues \<noteq> 0"
      using closed(1) that fr extends_bits[OF e2] by auto
    show "and (state v) (or CompStateHasFlagNames (or CompStateFailed CompStateDone)) \<noteq> 0"
      if "and (want t1) CompStateHasFlagNames \<noteq> 0"
      using closed(2) that fr extends_bits[OF e2] by auto
    show "and (state v) (or CompStateHasSubcmds (or CompStateFailed CompStateDone)) \<noteq> 0"
      if "and (want t1) CompStateHasSubcmds \<noteq> 0"
      using closed(3) that fr extends_bits[OF e2] by auto
  qed
  obtain a u where first: "consult ?provider tsk = (a, u)"
    by (cases "consult ?provider tsk") auto
  from e(2) first have "extends u t1" by simp
  from consult_again[OF first this] second c show ?thesis by simp
qed

text \<open>
  A root command without a completion provider and with one sub-command of two names,
  and the task of the completion of the empty argument after \<open>app\<close>, before and after
  a call of \<^verbatim>\<open>AddDefault\<close>.
\<close>

definition example_plain_root :: "unit Cmd" where
  "example_plain_root =
    Cmd ''app'' '''' None None None None
      [Cmd ''serve|s'' ''run the server'' None None None None [] 0] 0"

definition example_plain :: "unit CompTask" where
  "example_plain =
    \<lparr>result = [], ToComplete = '''', Route = [example_plain_root], FlagMissingValue = None,
     state = 0, want = or CompStateHasFlagNames CompStateHasSubcmds\<rparr>"

definition example_plain_once :: "unit CompTask" where
  "example_plain_once =
    example_plain\<lparr>result := [CompItem ''serve'' ''run the server'' CompKindText,
                              CompItem ''s'' ''run the server'' CompKindText],
                  state := or CompStateHasFlagNames CompStateHasSubcmds\<rparr>"

lemma entries_serve: "entries ''serve|s'' ''|'' = [''serve'', ''s'']"
  by code_simp

lemma example_plain_first_call:
  "AddDefault (\<lambda>known toCompare. False) () example_plain = Some (Inr (2, example_plain_once))"
  by (simp add: AddDefault_def example_plain_def example_plain_once_def example_plain_root_def
      consult_def HasPrefix_def AddFlagNames_def AddSubcmds_def Add_def subcmd_items_def
      entries_serve CmdStateHidden_def
      AddFlagNames_loop_none Route_NthFlag_no_flags
      CompStateHasFlagNames_def CompStateHasSubcmds_def CompStateHasFlagValues_def
      CompStateFailed_def CompStateDone_def)

theorem AddDefault_second_call_consults_target_only_witness:
  "AddDefault (\<lambda>known toCompare. False) () example_plain = Some (Inr (2, example_plain_once))
   \<and> AddDefault (\<lambda>known toCompare. False) () example_plain_once
       = Some (Inr (0, example_plain_once))
   \<and> readded (Completion (last (Route example_plain))) example_plain_once = []"
proof -
  have none: "Completion (last (Route example_plain)) = None"
    by (simp add: example_plain_def example_plain_root_def)
  from AddDefault_second_call_consults_target_only[OF example_plain_first_call] none
  show ?thesis by (simp add: example_plain_first_call consult_def readded_def)
qed

subsection \<open>Default values among the suggestions\<close>

text \<open>
  The text \<open>v1, v2, ...\<close> of a list of values (\<^verbatim>\<open>strings.Join\<close>), as the bracketed
  default value of a flag holds it.
\<close>

fun Join :: "string list \<Rightarrow> string \<Rightarrow> string" where
  "Join [] sep = []"
| "Join [v] sep = v"
| "Join (v # w # ws) sep = v @ sep @ Join (w # ws) sep"

lemma Cut_not_contained:
  "sep \<noteq> [] \<Longrightarrow> \<not> Contains_str v sep \<Longrightarrow> Cut v sep = (v, [], False)"
  by (induction v) auto

lemma Cut_comma_space:
  "\<not> Contains_str v '', '' \<Longrightarrow> Cut (v @ '', '' @ rest) '', '' = (v, rest, True)"
proof (induction v)
  case Nil
  show ?case by simp
next
  case (Cons c cs)
  then have no: "\<not> Contains_str cs '', ''" and here: "take 2 (c # cs) \<noteq> '', ''" by simp_all
  have "take 2 ((c # cs) @ '', '' @ rest) \<noteq> '', ''"
  proof (cases cs)
    case Nil
    then show ?thesis by simp
  next
    case (Cons d ds)
    with here show ?thesis by simp
  qed
  with Cons.IH[OF no] show ?case by simp
qed

lemma entries_Join:
  "\<forall>v \<in> set vs. \<not> Contains_str v '', '' \<Longrightarrow> vs = [] \<or> last vs \<noteq> [] \<Longrightarrow>
    entries (Join vs '', '') '', '' = vs"
proof (induction vs "'', ''" rule: Join.induct)
  case 1
  show ?case by simp
next
  case (2 v)
  then have "v \<noteq> []" and "Cut v '', '' = (v, [], False)"
    by (simp_all add: Cut_not_contained)
  then show ?case by simp
next
  case (3 v w ws)
  from 3(2) have "\<not> Contains_str v '', ''" by simp
  from Cut_comma_space[OF this]
  have c: "Cut (v @ '', '' @ Join (w # ws) '', '') '', '' = (v, Join (w # ws) '', '', True)" .
  from 3 have "entries (Join (w # ws) '', '') '', '' = w # ws" by simp
  with c show ?case by simp
qed

lemma default_items_bracketed:
  assumes "\<forall>v \<in> set vs. \<not> Contains_str v '', ''" and "vs = [] \<or> last vs \<noteq> []"
  shows "default_items changed (''['' @ Join vs '', '' @ '']'') =
    map (\<lambda>v. CompItem v ''default value'' CompKindFlagValue) (if changed then drop 1 vs else vs)"
proof -
  have "slice (''['' @ Join vs '', '' @ '']'') 1 (length (''['' @ Join vs '', '' @ '']'') - 1)
    = Join vs '', ''"
    by (simp add: slice_def)
  with entries_Join[OF assms] show ?thesis by (simp add: default_items_def)
qed

lemma AddDefault_wants_flag_values:
  assumes "Route tsk \<noteq> []" and "want tsk = CompStateHasFlagValues"
  shows "AddDefault isSimilar s tsk =
    Some (Inr (case consult (Completion (last (Route tsk))) tsk of
                 (n0, t0) \<Rightarrow>
                   (case AddFlagValues False (FlagMissingValue tsk) '''' False s t0 of
                      (n, t) \<Rightarrow> (n0 + n, t))))"
proof -
  obtain n0 t0 where c: "consult (Completion (last (Route tsk))) tsk = (n0, t0)"
    by (cases "consult (Completion (last (Route tsk))) tsk") auto
  note fr = extends_frame[OF consult_extends[OF c]]
  obtain n t where v: "AddFlagValues False (FlagMissingValue tsk) '''' False s t0 = (n, t)"
    by (cases "AddFlagValues False (FlagMissingValue tsk) '''' False s t0") auto
  note fr2 = extends_frame[OF AddFlagValues_extends[OF v]]
  have w: "and (want t) CompStateHasFlagNames = 0" "and (want t) CompStateHasSubcmds = 0"
    "and (want t0) CompStateHasFlagValues \<noteq> 0"
    using assms(2) fr fr2
    by (simp_all add: CompStateHasFlagValues_def CompStateHasFlagNames_def
        CompStateHasSubcmds_def)
  show ?thesis using assms(1) c v w fr by (simp add: AddDefault_def)
qed

text \<open>
  A root command with one flag \<open>mode\<close>, which has no completion provider and the default
  value \<open>[fast, slow]\<close>, and the task that \<^verbatim>\<open>Init(root, nil, 2, "app", "--mode")\<close> makes
  of the zero task: the completion of the value of \<open>--mode\<close>.
\<close>

definition example_mode_flag :: "unit Flag" where
  "example_mode_flag =
    \<lparr>ImplyValue = None,
     Decode = (\<lambda>opts name arg setv s. Inr (None, s)),
     AsCompAction = None, Extra = None,
     State = (\<lambda>s. 0), HasValue = (\<lambda>s. False), PrintValue = (\<lambda>s. Inr ''''),
     Usage = ''the mode''\<rparr>"

definition example_mode_info :: FlagInfo where
  "example_mode_info =
    \<lparr>Name = ''mode'', Shorthand = '''', DefaultValue = ''[fast, slow]'', InfoState = 0\<rparr>"

definition example_mode_flags :: "unit Indexer" where
  "example_mode_flags =
    \<lparr>FindFlag = (\<lambda>name. if name = ''mode'' then Some example_mode_flag else None),
     NthFlag = Some (\<lambda>s i. if i = 0 then Some example_mode_info else None)\<rparr>"

definition example_mode_root :: "unit Cmd" where
  "example_mode_root = Cmd ''app'' '''' (Some example_mode_flags) None None None [] 0"

definition example_mode_task :: "unit CompTask" where
  "example_mode_task =
    \<lparr>result = [], ToComplete = '''', Route = [example_mode_root],
     FlagMissingValue = Some example_mode_flag, state = 0, want = CompStateHasFlagValues\<rparr>"

lemma example_mode_finder:
  "Route_finder [example_mode_root] ''mode'' = Some example_mode_flag"
  "Route_FindFlag [example_mode_root] ''mode'' = Inr (Some example_mode_flag)"
  by (simp_all add: Route_finder_def Route_FindFlag_def Route_FindFlag_log_def
      example_mode_root_def example_mode_flags_def)

lemma example_mode_parse:
  "ParseFlagsLowLevel [''--mode''] (Route_finder [example_mode_root]) None 0 True False True [] ()
    = Inr \<lparr>nParsed = 1, posDash = - 1, foundPosArg = False, posArgs = [], helpArgAt = - 1,
           err = Some (ErrFlagValueMissing ''mode'' 0), final = ()\<rparr>"
  by (simp add: ParseFlagsLowLevel_def Let_def IsHelpArg_def parseLongFlag_def
      parseLongFlag_TryImplied_def example_mode_finder example_mode_flag_def)

lemma example_mode_Init:
  "Init example_mode_root 2 [''app'', ''--mode''] () CompTask_zero = Inr (example_mode_task, ())"
  by (simp add: Init_def Let_def ResolveTarget_def ResolveTarget_finish_def example_mode_parse
      Init_missing_value_def example_mode_finder CompTask_zero_def example_mode_task_def)
     (simp add: example_mode_root_def)

lemma example_mode_AddDefault:
  "AddDefault isSimilar () example_mode_task =
    Some (Inr (0, example_mode_task\<lparr>state := CompStateHasFlagValues\<rparr>))"
  by (simp add: AddDefault_def AddFlagValues_def consult_def flag_CompAction_def
      example_mode_task_def example_mode_root_def example_mode_flag_def
      CompStateHasFlagNames_def CompStateHasSubcmds_def CompStateHasFlagValues_def
      CompStateFailed_def CompStateDone_def)

lemma example_mode_entries: "entries ''fast, slow'' '', '' = [''fast'', ''slow'']"
  by code_simp

lemma example_mode_AddFlagValues:
  "AddFlagValues False (Some example_mode_flag) (DefaultValue example_mode_info) True ()
      example_mode_task =
    (2, example_mode_task
          \<lparr>result := [CompItem ''fast'' ''default value'' CompKindFlagValue,
                      CompItem ''slow'' ''default value'' CompKindFlagValue],
           state := CompStateHasFlagValues\<rparr>)"
  by (simp add: AddFlagValues_def consult_def flag_CompAction_def AddMatched_def HasPrefix_def
      default_items_def deduced_items_def slice_def example_mode_entries ValueChanged_def
      example_mode_task_def example_mode_info_def example_mode_flag_def
      FlagStateValueChanged_def
      CompStateHasFlagValues_def CompStateFailed_def CompStateDone_def)

text \<open>
  Claim C8 fails on the code. \<^verbatim>\<open>AddDefault\<close> calls
  \<^verbatim>\<open>AddFlagValues(false, tsk.FlagMissingValue, "", false)\<close>: the default text is empty and
  \<^verbatim>\<open>addDefaults\<close> is false, so the function returns after the provider of the flag. For
  the flag \<open>mode\<close> above, which has no provider, \<^verbatim>\<open>AddDefault\<close> adds no item, though the
  default value of the flag is \<open>[fast, slow]\<close> and both entries begin with the empty
  prefix. \<^verbatim>\<open>AddFlagValues\<close> called with that default value and \<^verbatim>\<open>addDefaults\<close> true adds
  both.
\<close>

theorem AddDefault_no_default_values_counterexample:
  "\<forall>isSimilar.
     Init example_mode_root 2 [''app'', ''--mode''] () CompTask_zero = Inr (example_mode_task, ())
     \<and> Route_NthFlag (Route example_mode_task) () 0 = Some example_mode_info
     \<and> DefaultValue example_mode_info = ''[fast, slow]''
     \<and> AddDefault isSimilar () example_mode_task
         = Some (Inr (0, example_mode_task\<lparr>state := CompStateHasFlagValues\<rparr>))
     \<and> result (example_mode_task\<lparr>state := CompStateHasFlagValues\<rparr>) = []
     \<and> result (snd (AddFlagValues False (Some example_mode_flag)
                      (DefaultValue example_mode_info) True () example_mode_task))
         = [CompItem ''fast'' ''default value'' CompKindFlagValue,
            CompItem ''slow'' ''default value'' CompKindFlagValue]"
proof (intro allI conjI)
  show "Route_NthFlag (Route example_mode_task) () 0 = Some example_mode_info"
    by (simp add: Route_NthFlag_def NthFlag_in_def example_mode_task_def example_mode_root_def
        example_mode_flags_def)
  show "DefaultValue example_mode_info = ''[fast, slow]''"
    by (simp add: example_mode_info_def)
  show "result (example_mode_task\<lparr>state := CompStateHasFlagValues\<rparr>) = []"
    by (simp add: example_mode_task_def)
  show "result (snd (AddFlagValues False (Some example_mode_flag)
                      (DefaultValue example_mode_info) True () example_mode_task))
         = [CompItem ''fast'' ''default value'' CompKindFlagValue,
            CompItem ''slow'' ''default value'' CompKindFlagValue]"
    by (simp add: example_mode_AddFlagValues)
qed (rule example_mode_Init example_mode_AddDefault)+

lemma HasPrefix_iff: "HasPrefix s pre = (\<exists>rest. s = pre @ rest)"
proof
  assume "HasPrefix s pre"
  then have "s = pre @ drop (length pre) s"
    by (metis HasPrefix_def append_take_drop_id)
  then show "\<exists>rest. s = pre @ rest" ..
next
  assume "\<exists>rest. s = pre @ rest"
  then show "HasPrefix s pre" by (auto simp add: HasPrefix_def)
qed

lemma default_items_plain:
  "def \<noteq> [] \<Longrightarrow> \<not> (hd def = CHR ''['' \<and> last def = CHR '']'') \<Longrightarrow>
    default_items changed def =
      (if changed then [] else [CompItem def ''default value'' CompKindFlagValue])"
  by (auto simp add: default_items_def)

lemma consult_static:
  "consult (Some (CompActionStatic suggestions w st)) u =
    (if w \<noteq> 0 \<and> and (want u) w = 0 then (0, u)
     else if and (state u) (or CompStateFailed CompStateDone) \<noteq> 0
     then (0, u\<lparr>state := or (state u) st\<rparr>)
     else (int (length (filter (\<lambda>item. \<exists>rest. Value item = ToComplete u @ rest) suggestions)),
           u\<lparr>result := result u @
                  filter (\<lambda>item. \<exists>rest. Value item = ToComplete u @ rest) suggestions,
             state := or (state u) st\<rparr>))"
  by (simp add: consult_def AddMatched_def HasPrefix_iff)

lemma AddFlagValues_with_defaults:
  assumes "force \<or>
    and (state t) (or CompStateHasFlagValues (or CompStateFailed CompStateDone)) = 0"
  shows "case consult (flag_CompAction flag) (t\<lparr>state := or (state t) CompStateHasFlagValues\<rparr>) of
     (n, t2) \<Rightarrow>
       AddFlagValues force (Some flag) def True s t =
         (if \<not> force \<and> and (state t2) (or CompStateFailed CompStateDone) \<noteq> 0 then (n, t2)
          else (n + int (length (filter (\<lambda>item. \<exists>rest. Value item = ToComplete t @ rest)
                   ((if def = [] then [] else default_items (ValueChanged (State flag s)) def)
                    @ deduced_items flag s))),
                t2\<lparr>result := result t2 @
                        filter (\<lambda>item. \<exists>rest. Value item = ToComplete t @ rest)
                          ((if def = [] then []
                            else default_items (ValueChanged (State flag s)) def)
                           @ deduced_items flag s)\<rparr>))"
proof -
  obtain n t2 where c:
    "consult (flag_CompAction flag) (t\<lparr>state := or (state t) CompStateHasFlagValues\<rparr>) = (n, t2)"
    by (cases "consult (flag_CompAction flag) (t\<lparr>state := or (state t) CompStateHasFlagValues\<rparr>)")
      auto
  from extends_frame(3)[OF consult_extends[OF c]] have tc: "ToComplete t2 = ToComplete t"
    by simp
  from assms c tc show ?thesis
    by (auto simp add: AddFlagValues_def AddMatched_def HasPrefix_iff)
qed

lemma AddDefault_flag_values_providers:
  assumes "Route tsk \<noteq> []" and "want tsk = CompStateHasFlagValues"
    and "FlagMissingValue tsk = Some flag"
  shows "AddDefault isSimilar s tsk =
    Some (Inr (case consult (Completion (last (Route tsk))) tsk of
                 (n0, t0) \<Rightarrow>
                   if and (state t0)
                        (or CompStateHasFlagValues (or CompStateFailed CompStateDone)) \<noteq> 0
                   then (n0, t0)
                   else case consult (flag_CompAction flag)
                               (t0\<lparr>state := or (state t0) CompStateHasFlagValues\<rparr>) of
                          (n, t) \<Rightarrow> (n0 + n, t)))"
  using AddDefault_wants_flag_values[OF assms(1,2), of isSimilar s] assms(3)
  by (auto simp add: AddFlagValues_def split: prod.splits)

text \<open>
  Claim C8, as amended. When a completion task wants flag values (\<^verbatim>\<open>Init\<close> then sets
  \<open>want\<close> to \<^verbatim>\<open>CompStateHasFlagValues\<close> alone), \<^verbatim>\<open>AddDefault\<close> consults the provider of
  the target command and then, unless the state says flag values, failed or done, the
  provider of the flag (the flag as a \<^verbatim>\<open>CompAction\<close>, else its \<^verbatim>\<open>Extra()\<close>), and adds
  nothing else: with no provider it adds no item, whatever the default value of the
  flag. A \<^verbatim>\<open>CompActionStatic\<close> provider adds its suggestions whose value begins with
  \<^verbatim>\<open>tsk.ToComplete\<close>. Default values are added by \<^verbatim>\<open>AddFlagValues\<close> with \<^verbatim>\<open>addDefaults\<close>
  true only: after the provider of the flag, and unless the task is failed or done,
  it appends those candidates whose value begins with \<^verbatim>\<open>tsk.ToComplete\<close>, the candidates
  being the items of the default text followed by the printed current value (if the
  value of the flag has not changed, the flag has a value and printing it succeeds). A
  bracketed default text \<open>[v1, v2, ...]\<close> whose values do not contain the separator and
  whose last value is not empty gives the values one by one, without the first when the
  value of the flag has changed; any other non-empty default text gives the text itself
  when the value of the flag has not changed, and nothing when it has.
\<close>

theorem AddDefault_consults_flag_provider_only:
  "(Route tsk \<noteq> [] \<and> want tsk = CompStateHasFlagValues \<and> FlagMissingValue tsk = Some flag
      \<longrightarrow>
      AddDefault isSimilar s tsk =
        Some (Inr (case consult (Completion (last (Route tsk))) tsk of
                     (n0, t0) \<Rightarrow>
                       if and (state t0)
                            (or CompStateHasFlagValues (or CompStateFailed CompStateDone)) \<noteq> 0
                       then (n0, t0)
                       else case consult (flag_CompAction flag)
                                   (t0\<lparr>state := or (state t0) CompStateHasFlagValues\<rparr>) of
                              (n, t) \<Rightarrow> (n0 + n, t)))
      \<and> (Completion (last (Route tsk)) = None \<and> flag_CompAction flag = None \<longrightarrow>
           (\<exists>t. AddDefault isSimilar s tsk = Some (Inr (0, t)) \<and> result t = result tsk)))
   \<and> consult (Some (CompActionStatic suggestions w st)) u =
        (if w \<noteq> 0 \<and> and (want u) w = 0 then (0, u)
         else if and (state u) (or CompStateFailed CompStateDone) \<noteq> 0
         then (0, u\<lparr>state := or (state u) st\<rparr>)
         else (int (length (filter (\<lambda>item. \<exists>rest. Value item = ToComplete u @ rest)
                              suggestions)),
               u\<lparr>result := result u @
                      filter (\<lambda>item. \<exists>rest. Value item = ToComplete u @ rest) suggestions,
                 state := or (state u) st\<rparr>))
   \<and> (force \<or> and (state t) (or CompStateHasFlagValues (or CompStateFailed CompStateDone)) = 0
        \<longrightarrow>
      (case consult (flag_CompAction flag) (t\<lparr>state := or (state t) CompStateHasFlagValues\<rparr>) of
         (n, t2) \<Rightarrow>
           AddFlagValues force (Some flag) def True s t =
             (if \<not> force \<and> and (state t2) (or CompStateFailed CompStateDone) \<noteq> 0
              then (n, t2)
              else (n + int (length (filter (\<lambda>item. \<exists>rest. Value item = ToComplete t @ rest)
                       ((if def = [] then []
                         else default_items (ValueChanged (State flag s)) def)
                        @ deduced_items flag s))),
                    t2\<lparr>result := result t2 @
                            filter (\<lambda>item. \<exists>rest. Value item = ToComplete t @ rest)
                              ((if def = [] then []
                                else default_items (ValueChanged (State flag s)) def)
                               @ deduced_items flag s)\<rparr>))))
   \<and> ((\<forall>v \<in> set vs. \<not> Contains_str v '', '') \<and> (vs = [] \<or> last vs \<noteq> []) \<longrightarrow>
      default_items changed (''['' @ Join vs '', '' @ '']'') =
        map (\<lambda>v. CompItem v ''default value'' CompKindFlagValue)
          (if changed then drop 1 vs else vs))
   \<and> (plain \<noteq> [] \<and> \<not> (hd plain = CHR ''['' \<and> last plain = CHR '']'') \<longrightarrow>
      default_items changed plain =
        (if changed then [] else [CompItem plain ''default value'' CompKindFlagValue]))
   \<and> deduced_items flag s =
        (if \<not> ValueChanged (State flag s) \<and> HasValue flag s then
           (case PrintValue flag s of
              Inr printed \<Rightarrow> [CompItem printed ''default value'' CompKindFlagValue]
            | Inl e \<Rightarrow> [])
         else [])"
proof (intro conjI impI)
  show "deduced_items flag s =
        (if \<not> ValueChanged (State flag s) \<and> HasValue flag s then
           (case PrintValue flag s of
              Inr printed \<Rightarrow> [CompItem printed ''default value'' CompKindFlagValue]
            | Inl e \<Rightarrow> [])
         else [])"
    by (simp add: deduced_items_def)
next
  assume a: "Route tsk \<noteq> [] \<and> want tsk = CompStateHasFlagValues
    \<and> FlagMissingValue tsk = Some flag"
  then show run: "AddDefault isSimilar s tsk =
        Some (Inr (case consult (Completion (last (Route tsk))) tsk of
                     (n0, t0) \<Rightarrow>
                       if and (state t0)
                            (or CompStateHasFlagValues (or CompStateFailed CompStateDone)) \<noteq> 0
                       then (n0, t0)
                       else case consult (flag_CompAction flag)
                                   (t0\<lparr>state := or (state t0) CompStateHasFlagValues\<rparr>) of
                              (n, t) \<Rightarrow> (n0 + n, t)))"
    by (simp add: AddDefault_flag_values_providers)
  assume "Completion (last (Route tsk)) = None \<and> flag_CompAction flag = None"
  with run show "\<exists>t. AddDefault isSimilar s tsk = Some (Inr (0, t)) \<and> result t = result tsk"
    by (simp add: consult_def)
next
  show "consult (Some (CompActionStatic suggestions w st)) u =
        (if w \<noteq> 0 \<and> and (want u) w = 0 then (0, u)
         else if and (state u) (or CompStateFailed CompStateDone) \<noteq> 0
         then (0, u\<lparr>state := or (state u) st\<rparr>)
         else (int (length (filter (\<lambda>item. \<exists>rest. Value item = ToComplete u @ rest)
                              suggestions)),
               u\<lparr>result := result u @
                      filter (\<lambda>item. \<exists>rest. Value item = ToComplete u @ rest) suggestions,
                 state := or (state u) st\<rparr>))"
    by (rule consult_static)
next
  assume "force \<or>
    and (state t) (or CompStateHasFlagValues (or CompStateFailed CompStateDone)) = 0"
  then show "case consult (flag_CompAction flag)
                 (t\<lparr>state := or (state t) CompStateHasFlagValues\<rparr>) of
         (n, t2) \<Rightarrow>
           AddFlagValues force (Some flag) def True s t =
             (if \<not> force \<and> and (state t2) (or CompStateFailed CompStateDone) \<noteq> 0
              then (n, t2)
              else (n + int (length (filter (\<lambda>item. \<exists>rest. Value item = ToComplete t @ rest)
                       ((if def = [] then []
                         else default_items (ValueChanged (State flag s)) def)
                        @ deduced_items flag s))),
                    t2\<lparr>result := result t2 @
                            filter (\<lambda>item. \<exists>rest. Value item = ToComplete t @ rest)
                              ((if def = [] then []
                                else default_items (ValueChanged (State flag s)) def)
                               @ deduced_items flag s)\<rparr>))"
    by (rule AddFlagValues_with_defaults)
next
  assume "(\<forall>v \<in> set vs. \<not> Contains_str v '', '') \<and> (vs = [] \<or> last vs \<noteq> [])"
  then show "default_items changed (''['' @ Join vs '', '' @ '']'') =
        map (\<lambda>v. CompItem v ''default value'' CompKindFlagValue)
          (if changed then drop 1 vs else vs)"
    using default_items_bracketed by blast
next
  assume "plain \<noteq> [] \<and> \<not> (hd plain = CHR ''['' \<and> last plain = CHR '']'')"
  then show "default_items changed plain =
        (if changed then [] else [CompItem plain ''default value'' CompKindFlagValue])"
    using default_items_plain by blast
qed

text \<open>
  A flag \<open>kind\<close> whose \<^verbatim>\<open>Extra()\<close> is a static provider with the suggestion \<open>foo\<close>, and
  the task of the completion of \<open>f\<close> as the value of that flag.
\<close>

definition example_kind_flag :: "unit Flag" where
  "example_kind_flag =
    \<lparr>ImplyValue = None,
     Decode = (\<lambda>opts name arg setv s. Inr (None, s)),
     AsCompAction = None,
     Extra = Some (CompActionStatic [CompItem ''foo'' '''' CompKindFlagValue] 0 0),
     State = (\<lambda>s. 0), HasValue = (\<lambda>s. False), PrintValue = (\<lambda>s. Inr ''''),
     Usage = ''the kind''\<rparr>"

definition example_kind_root :: "unit Cmd" where
  "example_kind_root =
    Cmd ''app'' ''''
      (Some \<lparr>FindFlag = (\<lambda>name. if name = ''kind'' then Some example_kind_flag else None),
             NthFlag = None\<rparr>)
      None None None [] 0"

definition example_kind_task :: "unit CompTask" where
  "example_kind_task =
    \<lparr>result = [], ToComplete = ''f'', Route = [example_kind_root],
     FlagMissingValue = Some example_kind_flag, state = 0, want = CompStateHasFlagValues\<rparr>"

theorem AddDefault_consults_flag_provider_only_witness:
  "Route example_kind_task \<noteq> [] \<and> want example_kind_task = CompStateHasFlagValues
   \<and> FlagMissingValue example_kind_task = Some example_kind_flag
   \<and> flag_CompAction example_kind_flag
       = Some (CompActionStatic [CompItem ''foo'' '''' CompKindFlagValue] 0 0)
   \<and> and (state example_kind_task)
         (or CompStateHasFlagValues (or CompStateFailed CompStateDone)) = 0
   \<and> \<not> Contains_str ''bar'' '', '' \<and> \<not> Contains_str ''far'' '', ''
   \<and> AddDefault (\<lambda>known toCompare. False) () example_kind_task
       = Some (Inr (1, example_kind_task
                         \<lparr>result := [CompItem ''foo'' '''' CompKindFlagValue],
                          state := CompStateHasFlagValues\<rparr>))
   \<and> AddFlagValues False (Some example_kind_flag) ''[bar, far]'' True () example_kind_task
       = (2, example_kind_task
               \<lparr>result := [CompItem ''foo'' '''' CompKindFlagValue,
                           CompItem ''far'' ''default value'' CompKindFlagValue],
                state := CompStateHasFlagValues\<rparr>)
   \<and> default_items False ''[bar, far]''
       = [CompItem ''bar'' ''default value'' CompKindFlagValue,
          CompItem ''far'' ''default value'' CompKindFlagValue]
   \<and> default_items False ''fast'' = [CompItem ''fast'' ''default value'' CompKindFlagValue]"
proof -
  note inst = AddDefault_consults_flag_provider_only
    [where tsk = example_kind_task and isSimilar = "\<lambda>known toCompare. False" and s = "()"
       and flag = example_kind_flag
       and suggestions = "[CompItem ''foo'' '''' CompKindFlagValue]" and w = 0 and st = 0
       and u = "example_kind_task\<lparr>state := CompStateHasFlagValues\<rparr>"
       and force = False and t = example_kind_task and def = "''[bar, far]''"
       and vs = "[''bar'', ''far'']" and changed = False and plain = "''fast''"]
  have fields: "Route example_kind_task \<noteq> []" "want example_kind_task = CompStateHasFlagValues"
    "FlagMissingValue example_kind_task = Some example_kind_flag"
    "state example_kind_task = 0" "ToComplete example_kind_task = ''f''"
    "result example_kind_task = []"
    "Completion (last (Route example_kind_task)) = None"
    by (simp_all add: example_kind_task_def example_kind_root_def)
  have provider: "flag_CompAction example_kind_flag
      = Some (CompActionStatic [CompItem ''foo'' '''' CompKindFlagValue] 0 0)"
    by (simp add: flag_CompAction_def example_kind_flag_def)
  have unchanged: "\<not> ValueChanged (State example_kind_flag ())"
    "deduced_items example_kind_flag () = []"
    by (simp_all add: ValueChanged_def deduced_items_def example_kind_flag_def)
  have bits: "and CompStateHasFlagValues (or CompStateFailed CompStateDone) = 0"
    "and (0 :: 32 word) (or CompStateHasFlagValues (or CompStateFailed CompStateDone)) = 0"
    by (simp_all add: CompStateHasFlagValues_def CompStateFailed_def CompStateDone_def)
  have none: "consult None example_kind_task = (0, example_kind_task)"
    by (simp add: consult_def)
  have names: "\<not> Contains_str ''bar'' '', ''" "\<not> Contains_str ''far'' '', ''"
    by simp_all
  from inst have static:
    "consult (Some (CompActionStatic [CompItem ''foo'' '''' CompKindFlagValue] 0 0))
       (example_kind_task\<lparr>state := CompStateHasFlagValues\<rparr>)
     = (1, example_kind_task\<lparr>result := [CompItem ''foo'' '''' CompKindFlagValue],
                              state := CompStateHasFlagValues\<rparr>)"
    by (simp add: fields bits)
  from inst show ?thesis
    by (simp add: fields provider unchanged bits none names static)
qed

end
